theory Spec2Isabelle
  imports Main "HOL-Library.Word" "HOL-Library.Multiset" "HOL-Library.Extended_Nat"
begin

section \<open>Common values\<close>

text \<open>A \<^verbatim>\<open>Uint8Array\<close> is a list of bytes. A rejected promise or a thrown exception is a
  value \<open>JsError msg\<close> carrying the message of the JavaScript \<^verbatim>\<open>Error\<close>.\<close>

type_synonym bytes = "8 word list"

datatype exn = JsError string

fun errorMessage :: "exn \<Rightarrow> string" where
  "errorMessage (JsError m) = m"

text \<open>Template literals print numbers in decimal.\<close>

definition digitChar :: "nat \<Rightarrow> char" where
  "digitChar d = char_of (of_char (CHR ''0'') + d)"

function showNat :: "nat \<Rightarrow> string" where
  "showNat n = (if n < 10 then [digitChar n] else showNat (n div 10) @ [digitChar (n mod 10)])"
  by pat_completeness auto
termination
  by (relation "measure id") auto

declare showNat.simps [simp del]

text \<open>JavaScript numbers are doubles. The numbers that occur as keys are the non-negative
  integers a double can hold and \<^verbatim>\<open>Infinity\<close>: they are values of type \<open>enat\<close>. \<open>roundDouble n\<close> is
  the double nearest to the integer \<open>n\<close>, ties going to the even significand of 53 bits, and
  \<^verbatim>\<open>Infinity\<close> from \<open>2^1024 - 2^970\<close> on.\<close>

function bitLength :: "nat \<Rightarrow> nat" where
  "bitLength n = (if n = 0 then 0 else Suc (bitLength (n div 2)))"
  by pat_completeness auto
termination
  by (relation "measure id") auto

declare bitLength.simps [simp del]

definition roundDouble :: "nat \<Rightarrow> enat" where
  "roundDouble n =
     (let e = bitLength n - 53; q = n div 2 ^ e; r = n mod 2 ^ e;
          m = (if 2 * r > 2 ^ e \<or> (2 * r = 2 ^ e \<and> odd q) then q + 1 else q)
      in if m * 2 ^ e \<ge> 2 ^ 1024 then \<infinity> else enat (m * 2 ^ e))"

text \<open>The result of a comparator: an integer-valued double, an infinity or \<^verbatim>\<open>NaN\<close>.\<close>

datatype number = Num int | PosInf | NegInf | NaN

text \<open>The subtraction \<^verbatim>\<open>a - b\<close> of two such keys: the exact difference rounded to a double;
  \<^verbatim>\<open>Infinity - Infinity\<close> is \<^verbatim>\<open>NaN\<close>.\<close>

definition jsMinus :: "enat \<Rightarrow> enat \<Rightarrow> number" where
  "jsMinus a b =
     (case (a, b) of
        (enat x, enat y) \<Rightarrow>
          (if y \<le> x then (case roundDouble (x - y) of enat m \<Rightarrow> Num (int m) | \<infinity> \<Rightarrow> PosInf)
           else (case roundDouble (y - x) of enat m \<Rightarrow> Num (- int m) | \<infinity> \<Rightarrow> NegInf))
      | (enat x, \<infinity>) \<Rightarrow> NegInf
      | (\<infinity>, enat y) \<Rightarrow> PosInf
      | (\<infinity>, \<infinity>) \<Rightarrow> NaN)"

text \<open>Template literals print \<^verbatim>\<open>Infinity\<close> by name. (From \<open>10^21\<close> on JavaScript prints a number
  in exponent notation, which is not reproduced here; it only shows in error messages.)\<close>

definition showNumber :: "enat \<Rightarrow> string" where
  "showNumber k = (case k of enat n \<Rightarrow> showNat n | \<infinity> \<Rightarrow> ''Infinity'')"

section \<open>pdu-store.ts\<close>

record TimingEntry =
  index :: int
  type' :: string
  source :: string
  timeOffset :: int
  size' :: int

text \<open>The object store \<^verbatim>\<open>frames\<close> of the IndexedDB database \<^verbatim>\<open>rdp-pdus\<close> holds records
  (number key, byte array), kept in key order as IndexedDB does; \<^verbatim>\<open>Infinity\<close> is a valid key. \<open>dbInstance\<close> says whether the
  module-level connection is set. Every request to IndexedDB may fail; \<open>faults\<close> is the outcome
  the browser has in store for the coming requests, in order: \<open>None\<close> lets the request succeed,
  \<open>Some m\<close> fires \<^verbatim>\<open>onerror\<close> with message \<open>m\<close>. When the list is used up every further request
  succeeds.\<close>

record database =
  frames :: "(enat \<times> bytes) list"
  dbInstance :: bool
  faults :: "string option list"

text \<open>\<^verbatim>\<open>store.put(data, index)\<close> inserts a record or replaces the one with that key.\<close>

fun putRecord :: "enat \<Rightarrow> bytes \<Rightarrow> (enat \<times> bytes) list \<Rightarrow> (enat \<times> bytes) list" where
  "putRecord k v [] = [(k, v)]"
| "putRecord k v ((k', v') # rs) =
     (if k < k' then (k, v) # (k', v') # rs
      else if k = k' then (k, v) # rs
      else (k', v') # putRecord k v rs)"

definition nextFault :: "database \<Rightarrow> string option \<times> database" where
  "nextFault db = (case faults db of [] \<Rightarrow> (None, db) | f # fs \<Rightarrow> (f, db\<lparr>faults := fs\<rparr>))"

definition openDatabase :: "database \<Rightarrow> (exn + unit) \<times> database" where
  "openDatabase db =
     (if dbInstance db then (Inr (), db)
      else (case nextFault db of
              (Some m, db') \<Rightarrow> (Inl (JsError (''Failed to open database: '' @ m)), db')
            | (None, db') \<Rightarrow> (Inr (), db'\<lparr>dbInstance := True\<rparr>)))"

definition clearFrames :: "database \<Rightarrow> (exn + unit) \<times> database" where
  "clearFrames db =
     (case openDatabase db of
        (Inl e, db1) \<Rightarrow> (Inl e, db1)
      | (Inr _, db1) \<Rightarrow>
          (case nextFault db1 of
             (Some m, db2) \<Rightarrow> (Inl (JsError (''Failed to clear frames: '' @ m)), db2)
           | (None, db2) \<Rightarrow> (Inr (), db2\<lparr>frames := []\<rparr>)))"

definition storeFrame :: "enat \<Rightarrow> bytes \<Rightarrow> database \<Rightarrow> (exn + unit) \<times> database" where
  "storeFrame i data db =
     (case openDatabase db of
        (Inl e, db1) \<Rightarrow> (Inl e, db1)
      | (Inr _, db1) \<Rightarrow>
          (case nextFault db1 of
             (Some m, db2) \<Rightarrow>
               (Inl (JsError (''Failed to store frame '' @ showNumber i @ '': '' @ m)), db2)
           | (None, db2) \<Rightarrow> (Inr (), db2\<lparr>frames := putRecord i data (frames db2)\<rparr>)))"

definition getFrame :: "enat \<Rightarrow> database \<Rightarrow> (exn + bytes option) \<times> database" where
  "getFrame i db =
     (case openDatabase db of
        (Inl e, db1) \<Rightarrow> (Inl e, db1)
      | (Inr _, db1) \<Rightarrow>
          (case nextFault db1 of
             (Some m, db2) \<Rightarrow>
               (Inl (JsError (''Failed to get frame '' @ showNumber i @ '': '' @ m)), db2)
           | (None, db2) \<Rightarrow> (Inr (map_of (frames db2) i), db2)))"

definition getFrameCount :: "database \<Rightarrow> (exn + nat) \<times> database" where
  "getFrameCount db =
     (case openDatabase db of
        (Inl e, db1) \<Rightarrow> (Inl e, db1)
      | (Inr _, db1) \<Rightarrow>
          (case nextFault db1 of
             (Some m, db2) \<Rightarrow> (Inl (JsError (''Failed to count frames: '' @ m)), db2)
           | (None, db2) \<Rightarrow> (Inr (length (frames db2)), db2)))"

section \<open>FolderUploader.svelte\<close>

text \<open>A \<^verbatim>\<open>File\<close> has a name; reading it (\<^verbatim>\<open>arrayBuffer()\<close>, \<^verbatim>\<open>text()\<close>) yields its content or
  rejects.\<close>

record File =
  name :: string
  contents :: "exn + bytes"

datatype upload_status = Idle | Loading | Success | Error

record UploadState =
  status :: upload_status
  message :: string
  progress :: nat
  total :: nat

text \<open>The component's variables: the bindable prop \<open>timing\<close>, \<open>uploadState\<close> and \<open>frameCount\<close>.\<close>

record uploader =
  timing :: "TimingEntry list"
  uploadState :: UploadState
  frameCount :: nat

definition isDigit :: "char \<Rightarrow> bool" where
  "isDigit c = (48 \<le> (of_char c :: nat) \<and> (of_char c :: nat) \<le> 57)"

definition digitVal :: "char \<Rightarrow> nat" where
  "digitVal c = of_char c - 48"

text \<open>\<^verbatim>\<open>name.match(/^(\d+)/)\<close>: the leading run of digits, when there is one.\<close>

definition matchLeadingDigits :: "string \<Rightarrow> string option" where
  "matchLeadingDigits s =
     (let ds = takeWhile isDigit s in if ds = [] then None else Some ds)"

text \<open>\<^verbatim>\<open>parseInt\<close> reads the leading run of decimal digits and returns the double nearest to
  the integer they denote (the engines round correctly, also beyond 20 digits). Both call
  sites pass a string that starts with a digit (the regex match above, or a name that passed
  \<^verbatim>\<open>/^\d+$/\<close>), so the \<^verbatim>\<open>NaN\<close> result for other strings is never produced.\<close>

definition decimalValue :: "string \<Rightarrow> nat" where
  "decimalValue ds = foldl (\<lambda>n c. 10 * n + digitVal c) 0 ds"

definition parseInt :: "string \<Rightarrow> enat" where
  "parseInt s = roundDouble (decimalValue (takeWhile isDigit s))"

text \<open>\<^verbatim>\<open>/^\d+$/.test(name)\<close>\<close>

definition isPduName :: "string \<Rightarrow> bool" where
  "isPduName s = (s \<noteq> [] \<and> list_all isDigit s)"

text \<open>The comparator handed to \<^verbatim>\<open>sort\<close>. \<open>lc a b\<close> stands for the platform's
  \<^verbatim>\<open>a.localeCompare(b, undefined, { numeric: true })\<close>.\<close>

definition compareFiles :: "(string \<Rightarrow> string \<Rightarrow> int) \<Rightarrow> File \<Rightarrow> File \<Rightarrow> number" where
  "compareFiles lc a b =
     (case (matchLeadingDigits (name a), matchLeadingDigits (name b)) of
        (Some x, Some y) \<Rightarrow> jsMinus (parseInt x) (parseInt y)
      | _ \<Rightarrow> Num (lc (name a) (name b)))"

text \<open>\<^verbatim>\<open>Array.prototype.sort\<close> reads the sign of the comparator's result and takes \<^verbatim>\<open>NaN\<close> as 0.
  It is a stable sort; it is taken here as stable insertion sort.\<close>

fun signOf :: "number \<Rightarrow> int" where
  "signOf (Num d) = sgn d"
| "signOf PosInf = 1"
| "signOf NegInf = - 1"
| "signOf NaN = 0"

fun insertBy :: "('a \<Rightarrow> 'a \<Rightarrow> number) \<Rightarrow> 'a \<Rightarrow> 'a list \<Rightarrow> 'a list" where
  "insertBy cmp x [] = [x]"
| "insertBy cmp x (y # ys) = (if signOf (cmp x y) \<le> 0 then x # y # ys else y # insertBy cmp x ys)"

definition sortBy :: "('a \<Rightarrow> 'a \<Rightarrow> number) \<Rightarrow> 'a list \<Rightarrow> 'a list" where
  "sortBy cmp xs = foldr (insertBy cmp) xs []"

definition naturalSort :: "(string \<Rightarrow> string \<Rightarrow> int) \<Rightarrow> File list \<Rightarrow> File list" where
  "naturalSort lc files = sortBy (compareFiles lc) files"

text \<open>The \<^verbatim>\<open>for\<close> loop of \<^verbatim>\<open>handleFolderSelect\<close> over \<^verbatim>\<open>pduFiles\<close>, from position \<open>i\<close> on; \<open>n\<close> is
  \<^verbatim>\<open>pduFiles.length\<close>. The first rejected promise leaves the loop.\<close>

fun storeFiles :: "nat \<Rightarrow> nat \<Rightarrow> File list \<Rightarrow> uploader \<Rightarrow> database \<Rightarrow> (exn + unit) \<times> uploader \<times> database" where
  "storeFiles n i [] u db = (Inr (), u, db)"
| "storeFiles n i (f # fs) u db =
     (case contents f of
        Inl e \<Rightarrow> (Inl e, u, db)
      | Inr uint8Array \<Rightarrow>
          (case storeFrame (parseInt (name f)) uint8Array db of
             (Inl e, db') \<Rightarrow> (Inl e, u, db')
           | (Inr _, db') \<Rightarrow>
               storeFiles n (i + 1) fs
                 (u\<lparr>uploadState := (uploadState u)\<lparr>progress := i + 1,
                    message := ''Loaded '' @ showNat (i + 1) @ ''/'' @ showNat n @ '': '' @ name f\<rparr>\<rparr>)
                 db'))"

text \<open>The bytes of a file that can be read, and the record the loop writes for it.\<close>

definition fileBytes :: "File \<Rightarrow> bytes" where
  "fileBytes f = (case contents f of Inr b \<Rightarrow> b | Inl e \<Rightarrow> [])"

definition putFile :: "File \<Rightarrow> (enat \<times> bytes) list \<Rightarrow> (enat \<times> bytes) list" where
  "putFile f rs = putRecord (parseInt (name f)) (fileBytes f) rs"

text \<open>The body of the \<^verbatim>\<open>try\<close> block.\<close>

definition storeAll :: "File list \<Rightarrow> uploader \<Rightarrow> database \<Rightarrow> (exn + unit) \<times> uploader \<times> database" where
  "storeAll pduFiles u db =
     (case clearFrames db of
        (Inl e, db1) \<Rightarrow> (Inl e, u, db1)
      | (Inr _, db1) \<Rightarrow>
          (case storeFiles (length pduFiles) 0 pduFiles u db1 of
             (Inl e, u2, db2) \<Rightarrow> (Inl e, u2, db2)
           | (Inr _, u2, db2) \<Rightarrow>
               (case getFrameCount db2 of
                  (Inl e, db3) \<Rightarrow> (Inl e, u2, db3)
                | (Inr c, db3) \<Rightarrow>
                    (Inr (),
                     u2\<lparr>frameCount := c,
                        uploadState := \<lparr>status = Success,
                          message = ''Successfully loaded '' @ showNat (length pduFiles) @ '' PDU frames''
                            @ (if length (timing u2) > 0 then '' with timing data'' else []),
                          progress = length pduFiles, total = length pduFiles\<rparr>\<rparr>,
                     db3))))"

text \<open>The part of \<^verbatim>\<open>handleFolderSelect\<close> that finds and parses \<^verbatim>\<open>timing.json\<close>. \<open>parse\<close> stands
  for \<^verbatim>\<open>JSON.parse\<close> on the file's text; \<open>None\<close> is a thrown \<^verbatim>\<open>SyntaxError\<close>. The \<^verbatim>\<open>catch\<close> only
  logs. The texts covered are those that \<^verbatim>\<open>JSON.parse\<close> rejects and those that denote an array of
  entries. (A text that denotes another value is assigned to \<^verbatim>\<open>timing\<close> as it is; for \<^verbatim>\<open>null\<close> the
  later reads of \<^verbatim>\<open>timing.length\<close> throw, and the ingestion ends with status error after its
  frames have been stored.)\<close>

definition loadTiming :: "(bytes \<Rightarrow> TimingEntry list option) \<Rightarrow> File list \<Rightarrow> uploader \<Rightarrow> uploader" where
  "loadTiming parse fileArray u =
     (case find (\<lambda>f. name f = ''timing.json'') fileArray of
        Some timingFile \<Rightarrow>
          (case contents timingFile of
             Inl e \<Rightarrow> u
           | Inr timingText \<Rightarrow>
               (case parse timingText of
                  None \<Rightarrow> u
                | Some t \<Rightarrow> u\<lparr>timing := t\<rparr>))
      | None \<Rightarrow> u\<lparr>timing := []\<rparr>)"

definition pduFilesOf :: "File list \<Rightarrow> File list" where
  "pduFilesOf fileArray = filter (\<lambda>f. isPduName (name f)) fileArray"

definition handleFolderSelect ::
  "(string \<Rightarrow> string \<Rightarrow> int) \<Rightarrow> (bytes \<Rightarrow> TimingEntry list option) \<Rightarrow> File list
     \<Rightarrow> uploader \<times> database \<Rightarrow> uploader \<times> database" where
  "handleFolderSelect lc parse files ud =
     (case ud of (u, db) \<Rightarrow>
        if files = [] then
          (u\<lparr>uploadState := \<lparr>status = Idle, message = ''No files selected'', progress = 0, total = 0\<rparr>\<rparr>, db)
        else
          (let fileArray = naturalSort lc files;
               u1 = loadTiming parse fileArray u;
               pduFiles = pduFilesOf fileArray;
               u2 = u1\<lparr>uploadState := \<lparr>status = Loading,
                      message = ''Loading '' @ showNat (length pduFiles) @ '' PDU files...'',
                      progress = 0, total = length pduFiles\<rparr>\<rparr>
           in (case storeAll pduFiles u2 db of
                 (Inr _, u3, db3) \<Rightarrow> (u3, db3)
               | (Inl e, u3, db3) \<Rightarrow>
                   (u3\<lparr>uploadState := \<lparr>status = Error, message = ''Error: '' @ errorMessage e,
                         progress = 0, total = 0\<rparr>\<rparr>, db3))))"

section \<open>The replay engine\<close>

text \<open>The WASM module \<^verbatim>\<open>ironrdp_replay_player\<close> is used through its interface only. A value of
  type \<open>'r\<close> is the state of one \<^verbatim>\<open>Replay\<close> object; the record below holds the module's exports
  as functions on it. \<open>create\<close> receives the records of the store it opens by name. A promise
  that rejects is an \<open>Inl\<close>.\<close>

record 'r wasm =
  importModule :: "exn + unit"
  initWasm :: "exn + unit"
  create :: "(enat \<times> bytes) list \<Rightarrow> nat \<Rightarrow> nat \<Rightarrow> exn + 'r"
  step :: "'r \<Rightarrow> (exn + bool) \<times> 'r"
  reset :: "'r \<Rightarrow> 'r"
  replay_currentFrame :: "'r \<Rightarrow> nat"
  resolutionChanged :: "'r \<Rightarrow> bool"
  clearResolutionChanged :: "'r \<Rightarrow> 'r"
  desktopWidth :: "'r \<Rightarrow> nat"
  desktopHeight :: "'r \<Rightarrow> nat"
  pointerBitmapChanged :: "'r \<Rightarrow> bool"
  clearPointerBitmapChanged :: "'r \<Rightarrow> 'r"
  getPointerBitmap :: "'r \<Rightarrow> bytes"
  pointerWidth :: "'r \<Rightarrow> nat"
  pointerHeight :: "'r \<Rightarrow> nat"
  pointerHotspotX :: "'r \<Rightarrow> int"
  pointerHotspotY :: "'r \<Rightarrow> int"
  mouseX :: "'r \<Rightarrow> int"
  mouseY :: "'r \<Rightarrow> int"
  getFrameBuffer :: "'r \<Rightarrow> bytes"
  width :: "'r \<Rightarrow> nat"
  height :: "'r \<Rightarrow> nat"

section \<open>ReplayPlayer.svelte and routes/player/+page.svelte\<close>

text \<open>The two players share most of their code; \<open>variant\<close> says which one runs.\<close>

datatype variant = ReplayPlayer | PlayerPage

text \<open>The log of a player, in order: the user's stop requests, the calls into the engine, what a
  call of \<^verbatim>\<open>playFrames\<close> does, canvas drawing and navigation. The calls of \<^verbatim>\<open>playFrames\<close> are
  numbered, and the events of call \<open>k\<close> carry its number: \<open>StepCalled k\<close> is the loop reaching
  \<^verbatim>\<open>replay.step()\<close>, \<open>StepReturned k hasMore n\<close> a step that resolved with \<open>hasMore\<close> and left the
  engine's \<^verbatim>\<open>currentFrame\<close> at \<open>n\<close>, \<open>Timeout k d\<close> a wait of \<open>d\<close> milliseconds and \<open>Caught k m\<close> the
  \<^verbatim>\<open>catch\<close> block entered with an exception of message \<open>m\<close>.\<close>

datatype event =
    StopRequested
  | CreateCalled
  | StepCalled nat
  | StepReturned nat bool nat
  | Caught nat string
  | ResetCalled
  | PutImageData bytes nat nat
  | DrawImage int int
  | FillRect nat nat
  | Timeout nat int
  | Goto string

text \<open>The variables of a player. \<open>timing'\<close> is \<^verbatim>\<open>timing\<close> (a prop of the component, a variable
  of the page), \<open>statusText\<close> is the component's \<^verbatim>\<open>status\<close>, \<open>ReplayLoaded\<close> says whether the
  class \<^verbatim>\<open>Replay\<close> has been imported, \<open>ctx\<close> whether the 2D context is set. \<open>cursorCanvas\<close> holds
  the size and pixels of the cached cursor.\<close>

record 'r player =
  timing' :: "TimingEntry list"
  ReplayLoaded :: bool
  replay :: "'r option"
  isInitialized :: bool
  isPlaying :: bool
  error :: "string option"
  currentFrame :: nat
  totalFrames :: nat
  statusText :: string
  ctx :: bool
  cursorCanvas :: "(nat \<times> nat \<times> bytes) option"
  canvasWidth :: nat
  canvasHeight :: nat
  currentTimeMs :: int
  showControls :: bool
  trace :: "event list"

definition DEFAULT_WIDTH :: nat where "DEFAULT_WIDTH = 1920"
definition DEFAULT_HEIGHT :: nat where "DEFAULT_HEIGHT = 1080"

definition emit :: "event \<Rightarrow> 'r player \<Rightarrow> 'r player" where
  "emit ev s = s\<lparr>trace := trace s @ [ev]\<rparr>"

text \<open>\<^verbatim>\<open>new ImageData(data, sw, sh)\<close> throws unless the length of the data is a non-zero multiple
  of 4, the number of pixels is a multiple of \<open>sw\<close>, and \<open>sh\<close> is the number of rows that results.
  (The message of the exception is the browser's; the model gives its name.)\<close>

definition newImageData :: "bytes \<Rightarrow> nat \<Rightarrow> nat \<Rightarrow> exn + unit" where
  "newImageData data sw sh =
     (if length data = 0 \<or> \<not> 4 dvd length data then Inl (JsError ''InvalidStateError'')
      else if sw = 0 \<or> \<not> sw dvd (length data div 4) \<or> sh \<noteq> length data div 4 div sw
           then Inl (JsError ''IndexSizeError'')
      else Inr ())"

text \<open>When the pointer bitmap does not fit its size, \<^verbatim>\<open>cursorCanvas\<close> is left as the new, blank
  canvas and the exception leaves the function.\<close>

definition updateCursorCanvas :: "'r wasm \<Rightarrow> 'r player \<Rightarrow> (exn + unit) \<times> 'r player" where
  "updateCursorCanvas w s =
     (case replay s of
        None \<Rightarrow> (Inr (), s)
      | Some r \<Rightarrow>
          (let pointerBitmap = getPointerBitmap w r in
           if pointerBitmap = [] then (Inr (), s\<lparr>cursorCanvas := None\<rparr>)
           else if pointerWidth w r = 0 \<or> pointerHeight w r = 0 then (Inr (), s\<lparr>cursorCanvas := None\<rparr>)
           else
             (case newImageData pointerBitmap (pointerWidth w r) (pointerHeight w r) of
                Inl e \<Rightarrow> (Inl e, s\<lparr>cursorCanvas := Some (pointerWidth w r, pointerHeight w r, [])\<rparr>)
              | Inr _ \<Rightarrow>
                  (Inr (), s\<lparr>cursorCanvas := Some (pointerWidth w r, pointerHeight w r, pointerBitmap)\<rparr>))))"

definition handleResolution :: "variant \<Rightarrow> 'r wasm \<Rightarrow> 'r player \<Rightarrow> 'r player" where
  "handleResolution v w s =
     (case replay s of
        None \<Rightarrow> s
      | Some r \<Rightarrow>
          if resolutionChanged w r then
            (let s1 = s\<lparr>canvasWidth := desktopWidth w r, canvasHeight := desktopHeight w r,
                        replay := Some (clearResolutionChanged w r)\<rparr>
             in if v = ReplayPlayer then
                  s1\<lparr>statusText := ''Resolution changed to '' @ showNat (canvasWidth s1) @ ''x''
                        @ showNat (canvasHeight s1)\<rparr>
                else s1)
          else s)"

definition handlePointer :: "'r wasm \<Rightarrow> 'r player \<Rightarrow> (exn + unit) \<times> 'r player" where
  "handlePointer w s =
     (case replay s of
        None \<Rightarrow> (Inr (), s)
      | Some r \<Rightarrow>
          if pointerBitmapChanged w r then
            (case updateCursorCanvas w s of
               (Inl e, s') \<Rightarrow> (Inl e, s')
             | (Inr _, s') \<Rightarrow> (Inr (), s'\<lparr>replay := Some (clearPointerBitmapChanged w r)\<rparr>))
          else (Inr (), s))"

definition handleUpdates :: "variant \<Rightarrow> 'r wasm \<Rightarrow> 'r player \<Rightarrow> (exn + unit) \<times> 'r player" where
  "handleUpdates v w s = handlePointer w (handleResolution v w s)"

definition renderCursor :: "'r wasm \<Rightarrow> 'r player \<Rightarrow> 'r player" where
  "renderCursor w s =
     (case replay s of
        None \<Rightarrow> s
      | Some r \<Rightarrow>
          if \<not> ctx s \<or> cursorCanvas s = None then s
          else emit (DrawImage (mouseX w r - pointerHotspotX w r) (mouseY w r - pointerHotspotY w r)) s)"

definition renderFrame :: "'r wasm \<Rightarrow> 'r player \<Rightarrow> (exn + unit) \<times> 'r player" where
  "renderFrame w s =
     (case replay s of
        None \<Rightarrow> (Inr (), s)
      | Some r \<Rightarrow>
          if \<not> ctx s then (Inr (), s)
          else
            (case newImageData (getFrameBuffer w r) (width w r) (height w r) of
               Inl e \<Rightarrow> (Inl e, s)
             | Inr _ \<Rightarrow>
                 (Inr (), renderCursor w (emit (PutImageData (getFrameBuffer w r) (width w r) (height w r)) s))))"

definition stopReplay :: "variant \<Rightarrow> 'r player \<Rightarrow> 'r player" where
  "stopReplay v s =
     (let s' = emit StopRequested s in
      if v = ReplayPlayer then
        s'\<lparr>isPlaying := False, statusText := ''Stopped at frame '' @ showNat (currentFrame s')\<rparr>
      else s'\<lparr>isPlaying := False, showControls := True\<rparr>)"

text \<open>The \<^verbatim>\<open>catch\<close> block of call \<open>k\<close> of \<^verbatim>\<open>playFrames\<close>.\<close>

definition playbackFailed :: "variant \<Rightarrow> nat \<Rightarrow> exn \<Rightarrow> 'r player \<Rightarrow> 'r player" where
  "playbackFailed v k e s =
     (let s' = emit (Caught k (errorMessage e)) s in
      if v = ReplayPlayer then
        s'\<lparr>error := Some (''Playback error: '' @ errorMessage e), statusText := ''Playback failed'',
           isPlaying := False\<rparr>
      else s'\<lparr>error := Some (''Playback error: '' @ errorMessage e), isPlaying := False,
              showControls := True\<rparr>)"

text \<open>The branch \<^verbatim>\<open>if (!hasMore)\<close> of the loop.\<close>

definition replayComplete :: "variant \<Rightarrow> 'r player \<Rightarrow> 'r player" where
  "replayComplete v s =
     (if v = ReplayPlayer then
        s\<lparr>statusText := ''Replay complete - '' @ showNat (currentFrame s) @ '' frames processed'',
          isPlaying := False\<rparr>
      else s\<lparr>isPlaying := False, showControls := True\<rparr>)"

text \<open>The loop yields to the page at its two \<^verbatim>\<open>await\<close>s only. Whatever runs meanwhile (the handlers
  of the buttons and keys, another call of \<^verbatim>\<open>playFrames\<close> up to its next \<^verbatim>\<open>await\<close>, the parent
  component assigning \<^verbatim>\<open>timing\<close>) changes the player's variables. A \<open>tick\<close> gives, for one
  iteration, the change made while the step is pending and the change made while the timer is
  pending.\<close>

record 'r tick =
  duringStep :: "'r player \<Rightarrow> 'r player"
  duringDelay :: "'r player \<Rightarrow> 'r player"

text \<open>\<^verbatim>\<open>await new Promise(resolve => setTimeout(resolve, delay))\<close> in call \<open>k\<close>.\<close>

definition awaitTimeout :: "nat \<Rightarrow> 'r tick \<Rightarrow> int \<Rightarrow> 'r player \<Rightarrow> 'r player" where
  "awaitTimeout k t delay s = duringDelay t (emit (Timeout k delay) s)"

text \<open>\<^verbatim>\<open>timing[currentFrame]\<close>: \<^verbatim>\<open>undefined\<close> beyond the end of the array.\<close>

definition timingAt :: "TimingEntry list \<Rightarrow> nat \<Rightarrow> TimingEntry option" where
  "timingAt tm i = (if i < length tm then Some (tm ! i) else None)"

text \<open>One pass through the body of the \<^verbatim>\<open>while (isPlaying)\<close> loop of call \<open>k\<close> of \<^verbatim>\<open>playFrames\<close>, with
  the local \<^verbatim>\<open>lastTimeOffset\<close>. \<open>Exit\<close> is the \<^verbatim>\<open>break\<close> or the \<^verbatim>\<open>catch\<close>; \<open>Next\<close> goes back to the loop
  condition with the new \<^verbatim>\<open>lastTimeOffset\<close>. The step acts on the engine when it is called; after
  the \<^verbatim>\<open>await\<close> the loop reads the variable \<^verbatim>\<open>replay\<close> again, and \<^verbatim>\<open>null\<close> there is a \<^verbatim>\<open>TypeError\<close>.\<close>

datatype 'r outcome = Exit "'r player" | Next "'r player" int

definition loopBody :: "variant \<Rightarrow> 'r wasm \<Rightarrow> nat \<Rightarrow> 'r tick \<Rightarrow> int \<Rightarrow> 'r player \<Rightarrow> 'r outcome" where
  "loopBody v w k t lastTimeOffset s =
     (let s0 = emit (StepCalled k) s in
      case replay s0 of
        None \<Rightarrow> Exit (playbackFailed v k (JsError ''replay is null'') s0)
      | Some r \<Rightarrow>
          (case step w r of
             (res, r') \<Rightarrow>
               (let sb = duringStep t (s0\<lparr>replay := Some r'\<rparr>)
                in (case res of
                      Inl e \<Rightarrow> Exit (playbackFailed v k e sb)
                    | Inr hasMore \<Rightarrow>
                        (case replay sb of
                           None \<Rightarrow> Exit (playbackFailed v k (JsError ''replay is null'') sb)
                         | Some rb \<Rightarrow>
                             (let s1 = (emit (StepReturned k hasMore (replay_currentFrame w rb)) sb)
                                         \<lparr>currentFrame := replay_currentFrame w rb\<rparr>
                              in (case handleUpdates v w s1 of
                                    (Inl e, s2) \<Rightarrow> Exit (playbackFailed v k e s2)
                                  | (Inr _, s2) \<Rightarrow>
                                      (case renderFrame w s2 of
                                         (Inl e, s3) \<Rightarrow> Exit (playbackFailed v k e s3)
                                       | (Inr _, s3) \<Rightarrow>
                                           if \<not> hasMore then Exit (replayComplete v s3)
                                           else
                                             (case timingAt (timing' s3) (currentFrame s3) of
                                                Some currentTiming \<Rightarrow>
                                                  (let delay = timeOffset currentTiming - lastTimeOffset;
                                                       s4 = s3\<lparr>currentTimeMs := timeOffset currentTiming\<rparr>
                                                   in if delay > 0
                                                      then Next (awaitTimeout k t delay s4) (timeOffset currentTiming)
                                                      else Next s4 (timeOffset currentTiming))
                                              | None \<Rightarrow> Next (awaitTimeout k t 16 s3) lastTimeOffset)))))))))"

text \<open>The loop. Each iteration takes the next tick; the result is \<open>None\<close> when the ticks run out
  while the loop is still going.\<close>

fun playLoop :: "variant \<Rightarrow> 'r wasm \<Rightarrow> nat \<Rightarrow> 'r tick list \<Rightarrow> int \<Rightarrow> 'r player \<Rightarrow> 'r player option" where
  "playLoop v w k [] lastTimeOffset s = (if isPlaying s then None else Some s)"
| "playLoop v w k (t # ts) lastTimeOffset s =
     (if \<not> isPlaying s then Some s
      else
        (case loopBody v w k t lastTimeOffset s of
           Exit s' \<Rightarrow> Some s'
         | Next s' lastTimeOffset' \<Rightarrow> playLoop v w k ts lastTimeOffset' s'))"

text \<open>The offset the loop starts from: \<^verbatim>\<open>timing[0]?.timeOffset ?? 0\<close>.\<close>

definition firstOffset :: "TimingEntry list \<Rightarrow> int" where
  "firstOffset tm = (case timingAt tm 0 of None \<Rightarrow> 0 | Some e \<Rightarrow> timeOffset e)"

text \<open>Call \<open>k\<close> of \<^verbatim>\<open>playFrames\<close>.\<close>

definition playFrames :: "variant \<Rightarrow> 'r wasm \<Rightarrow> nat \<Rightarrow> 'r tick list \<Rightarrow> 'r player \<Rightarrow> 'r player option" where
  "playFrames v w k ticks s =
     (case replay s of
        None \<Rightarrow> Some s
      | Some _ \<Rightarrow>
          (let lastTimeOffset = firstOffset (timing' s)
           in playLoop v w k ticks lastTimeOffset (s\<lparr>currentTimeMs := lastTimeOffset\<rparr>)))"

definition resetReplay :: "variant \<Rightarrow> 'r wasm \<Rightarrow> 'r player \<Rightarrow> 'r player" where
  "resetReplay v w s =
     (case replay s of
        None \<Rightarrow> s
      | Some r \<Rightarrow>
          (let s1 = (emit ResetCalled s)\<lparr>replay := Some (reset w r), currentFrame := 0,
                      currentTimeMs := 0\<rparr>
           in if v = ReplayPlayer then s1\<lparr>statusText := ''Reset to beginning''\<rparr>
              else if ctx s1 then emit (FillRect (canvasWidth s1) (canvasHeight s1)) s1
              else s1))"

text \<open>The initial values of a player's variables.\<close>

definition initialPlayer :: "TimingEntry list \<Rightarrow> 'r player" where
  "initialPlayer tm =
     \<lparr>timing' = tm, ReplayLoaded = False, replay = None, isInitialized = False, isPlaying = False,
      error = None, currentFrame = 0, totalFrames = 0, statusText = ''Not initialized'',
      ctx = False, cursorCanvas = None, canvasWidth = DEFAULT_WIDTH, canvasHeight = DEFAULT_HEIGHT,
      currentTimeMs = 0, showControls = True, trace = []\<rparr>"

text \<open>\<^verbatim>\<open>startReplay\<close> of the component creates the session and plays; its call of \<^verbatim>\<open>playFrames\<close> is
  call \<open>k\<close>.\<close>

definition startReplay_component ::
  "'r wasm \<Rightarrow> database \<Rightarrow> nat \<Rightarrow> 'r tick list \<Rightarrow> 'r player \<Rightarrow> 'r player option" where
  "startReplay_component w db k ticks s =
     (if \<not> isInitialized s \<or> \<not> ReplayLoaded s then Some (s\<lparr>error := Some ''WASM not initialized''\<rparr>)
      else
        (let s1 = emit CreateCalled (s\<lparr>statusText := ''Creating replay...''\<rparr>) in
         case create w (frames db) DEFAULT_WIDTH DEFAULT_HEIGHT of
           Inl e \<Rightarrow>
             Some (s1\<lparr>error := Some (''Failed to create replay: '' @ errorMessage e),
                      statusText := ''Replay creation failed'', isPlaying := False\<rparr>)
         | Inr r \<Rightarrow>
             playFrames ReplayPlayer w k ticks
               (s1\<lparr>replay := Some r, statusText := ''Replay created - Starting playback'',
                   isPlaying := True, error := None\<rparr>)))"

text \<open>\<^verbatim>\<open>startReplay\<close> of the page plays the session that \<^verbatim>\<open>onMount\<close> created.\<close>

definition startReplay_page :: "'r wasm \<Rightarrow> nat \<Rightarrow> 'r tick list \<Rightarrow> 'r player \<Rightarrow> 'r player option" where
  "startReplay_page w k ticks s =
     (if \<not> isInitialized s \<or> \<not> ReplayLoaded s \<or> replay s = None
      then Some (s\<lparr>error := Some ''Player not ready''\<rparr>)
      else playFrames PlayerPage w k ticks (s\<lparr>isPlaying := True, error := None, showControls := False\<rparr>))"

text \<open>The \<^verbatim>\<open>try\<close> block of the page's \<^verbatim>\<open>onMount\<close>; every failure ends in its \<^verbatim>\<open>catch\<close>.
  \<open>canvasCtx\<close> says whether \<^verbatim>\<open>canvas.getContext('2d')\<close> yields a context.\<close>

definition initFailed :: "exn \<Rightarrow> 'r player \<Rightarrow> 'r player" where
  "initFailed e s = s\<lparr>error := Some (''Failed to initialize: '' @ errorMessage e)\<rparr>"

definition initPlayer :: "'r wasm \<Rightarrow> bool \<Rightarrow> database \<Rightarrow> 'r player \<Rightarrow> 'r player" where
  "initPlayer w canvasCtx db s =
     (if \<not> canvasCtx then initFailed (JsError ''Failed to get canvas 2D context'') s
      else
        (case importModule w of
           Inl e \<Rightarrow> initFailed e (s\<lparr>ctx := True\<rparr>)
         | Inr _ \<Rightarrow>
             (case initWasm w of
                Inl e \<Rightarrow> initFailed e (s\<lparr>ctx := True, ReplayLoaded := True\<rparr>)
              | Inr _ \<Rightarrow>
                  (let s1 = emit CreateCalled (s\<lparr>ctx := True, ReplayLoaded := True, isInitialized := True\<rparr>)
                   in (case create w (frames db) DEFAULT_WIDTH DEFAULT_HEIGHT of
                         Inl e \<Rightarrow> initFailed e s1
                       | Inr r \<Rightarrow> s1\<lparr>replay := Some r\<rparr>)))))"

text \<open>\<^verbatim>\<open>onMount\<close> of the page. \<open>stored\<close> is the item \<^verbatim>\<open>rdp-timing\<close> of the session storage and
  \<open>parse\<close> is \<^verbatim>\<open>JSON.parse\<close>. A rejected \<^verbatim>\<open>getFrameCount\<close> is not caught: the function stops
  there.\<close>

definition onMount_page ::
  "'r wasm \<Rightarrow> (bytes \<Rightarrow> TimingEntry list option) \<Rightarrow> bytes option \<Rightarrow> bool
     \<Rightarrow> 'r player \<times> database \<Rightarrow> 'r player \<times> database" where
  "onMount_page w parse stored canvasCtx sd =
     (case sd of (s, db) \<Rightarrow>
        (let s0 = (case stored of
                     None \<Rightarrow> s
                   | Some timingData \<Rightarrow>
                       (case parse timingData of None \<Rightarrow> s | Some t \<Rightarrow> s\<lparr>timing' := t\<rparr>))
         in (case getFrameCount db of
               (Inl e, db1) \<Rightarrow> (s0, db1)
             | (Inr count', db1) \<Rightarrow>
                 if count' = 0 then (emit (Goto ''/'') s0, db1)
                 else (initPlayer w canvasCtx db1 (s0\<lparr>totalFrames := count'\<rparr>), db1))))"

section \<open>Reading the log\<close>

text \<open>The waits of call \<open>k\<close> in a log.\<close>

fun timeouts :: "nat \<Rightarrow> event list \<Rightarrow> int list" where
  "timeouts k [] = []"
| "timeouts k (Timeout k' d # es) = (if k' = k then d # timeouts k es else timeouts k es)"
| "timeouts k (_ # es) = timeouts k es"

text \<open>Whether the iteration of call \<open>k\<close> that is under way at the start of a log ends in the
  \<^verbatim>\<open>catch\<close> block: the log reaches \<open>Caught k\<close> before the next wait or step of call \<open>k\<close>.\<close>

fun iterationFailed :: "nat \<Rightarrow> event list \<Rightarrow> bool" where
  "iterationFailed k [] = False"
| "iterationFailed k (Caught k' m # es) = (k' = k \<or> iterationFailed k es)"
| "iterationFailed k (StepCalled k' # es) = (k' \<noteq> k \<and> iterationFailed k es)"
| "iterationFailed k (Timeout k' d # es) = (k' \<noteq> k \<and> iterationFailed k es)"
| "iterationFailed k (_ # es) = iterationFailed k es"

text \<open>The frame indices that the engine reported to call \<open>k\<close> after the steps that had more
  frames and whose iteration did not end in the \<^verbatim>\<open>catch\<close> block.\<close>

fun pacedFrames :: "nat \<Rightarrow> event list \<Rightarrow> nat list" where
  "pacedFrames k [] = []"
| "pacedFrames k (StepReturned k' hasMore n # es) =
     (if k' = k \<and> hasMore \<and> \<not> iterationFailed k es then n # pacedFrames k es else pacedFrames k es)"
| "pacedFrames k (_ # es) = pacedFrames k es"

text \<open>The pacing rule as the specification words it: after a decoded frame \<open>c\<close> the delay is the
  \<open>timeOffset\<close> of the timing entry at \<open>c\<close> minus the offset consumed before, and the loop waits
  for it only when it is positive; without an entry at \<open>c\<close> the loop waits 16 ms.\<close>

fun specPacing :: "TimingEntry list \<Rightarrow> int \<Rightarrow> nat list \<Rightarrow> int list" where
  "specPacing tm previous [] = []"
| "specPacing tm previous (c # cs) =
     (if c < length tm then
        (if timeOffset (tm ! c) - previous > 0 then [timeOffset (tm ! c) - previous] else [])
          @ specPacing tm (timeOffset (tm ! c)) cs
      else 16 # specPacing tm previous cs)"

text \<open>The offset consumed before the first step, as the specification words it: the first
  entry's, or 0 if no entries exist.\<close>

definition specFirstOffset :: "TimingEntry list \<Rightarrow> int" where
  "specFirstOffset tm = (case tm of [] \<Rightarrow> 0 | e # _ \<Rightarrow> timeOffset e)"

text \<open>The call that an event belongs to, and the events of call \<open>k\<close> in a log.\<close>

fun callOf :: "event \<Rightarrow> nat option" where
  "callOf (StepCalled k) = Some k"
| "callOf (StepReturned k hasMore n) = Some k"
| "callOf (Timeout k d) = Some k"
| "callOf (Caught k m) = Some k"
| "callOf _ = None"

definition ofCall :: "nat \<Rightarrow> event list \<Rightarrow> event list" where
  "ofCall k evs = filter (\<lambda>e. callOf e = Some k) evs"

text \<open>The events logged between the state \<open>s\<close> and the later state \<open>s'\<close>.\<close>

definition eventsSince :: "'r player \<Rightarrow> 'r player \<Rightarrow> event list" where
  "eventsSince s s' = drop (length (trace s)) (trace s')"

text \<open>Call \<open>k\<close> reaches no step after a stop request.\<close>

fun noStepAfterStop :: "nat \<Rightarrow> event list \<Rightarrow> bool" where
  "noStepAfterStop k [] = True"
| "noStepAfterStop k (e # es) = ((e \<noteq> StopRequested \<or> StepCalled k \<notin> set es) \<and> noStepAfterStop k es)"

fun outState :: "'r outcome \<Rightarrow> 'r player" where
  "outState (Exit s) = s"
| "outState (Next s lastTimeOffset) = s"

section \<open>Sample inputs\<close>

text \<open>An engine that counts the steps taken and has \<open>n\<close> frames to decode: each step moves
  \<^verbatim>\<open>currentFrame\<close> on by one and reports whether frames remain. The first step signals the
  desktop size.\<close>

definition countingEngine :: "nat \<Rightarrow> nat wasm" where
  "countingEngine n =
     \<lparr>importModule = Inr (), initWasm = Inr (),
      create = (\<lambda>records w h. Inr 0),
      step = (\<lambda>r. (Inr (r + 1 < n), r + 1)),
      reset = (\<lambda>r. 0),
      replay_currentFrame = (\<lambda>r. r),
      resolutionChanged = (\<lambda>r. r = 1),
      clearResolutionChanged = (\<lambda>r. r),
      desktopWidth = (\<lambda>r. 800), desktopHeight = (\<lambda>r. 600),
      pointerBitmapChanged = (\<lambda>r. False), clearPointerBitmapChanged = (\<lambda>r. r),
      getPointerBitmap = (\<lambda>r. []), pointerWidth = (\<lambda>r. 0), pointerHeight = (\<lambda>r. 0),
      pointerHotspotX = (\<lambda>r. 0), pointerHotspotY = (\<lambda>r. 0),
      mouseX = (\<lambda>r. 0), mouseY = (\<lambda>r. 0),
      getFrameBuffer = (\<lambda>r. []), width = (\<lambda>r. 0), height = (\<lambda>r. 0)\<rparr>"

text \<open>The same engine with a frame buffer of one opaque black pixel, and the same engine with a
  frame buffer that is one byte short.\<close>

definition frameEngine :: "nat \<Rightarrow> nat wasm" where
  "frameEngine n = (countingEngine n)\<lparr>getFrameBuffer := (\<lambda>r. [0, 0, 0, 255]), width := (\<lambda>r. 1),
     height := (\<lambda>r. 1)\<rparr>"

definition shortFrameEngine :: "nat \<Rightarrow> nat wasm" where
  "shortFrameEngine n = (countingEngine n)\<lparr>getFrameBuffer := (\<lambda>r. [0, 0, 0]), width := (\<lambda>r. 1),
     height := (\<lambda>r. 1)\<rparr>"

definition entryAt :: "int \<Rightarrow> int \<Rightarrow> TimingEntry" where
  "entryAt i off = \<lparr>index = i, type' = ''FastPath'', source = ''server'', timeOffset = off, size' = 4\<rparr>"

text \<open>A player whose engine is loaded, with the given timing entries and session handle.\<close>

definition readyPlayer :: "TimingEntry list \<Rightarrow> nat option \<Rightarrow> nat player" where
  "readyPlayer tm h =
     \<lparr>timing' = tm, ReplayLoaded = True, replay = h, isInitialized = True, isPlaying = False,
      error = None, currentFrame = 0, totalFrames = 0, statusText = ''WASM loaded - Ready to play'',
      ctx = True, cursorCanvas = None, canvasWidth = 1920, canvasHeight = 1080, currentTimeMs = 0,
      showControls = True, trace = []\<rparr>"

text \<open>Nothing happens during the two waits of an iteration; the user presses stop while the step
  is pending; the user presses stop while the timer is pending.\<close>

definition idle :: "'r tick" where
  "idle = \<lparr>duringStep = (\<lambda>s. s), duringDelay = (\<lambda>s. s)\<rparr>"

definition stopInStep :: "variant \<Rightarrow> 'r tick" where
  "stopInStep v = \<lparr>duringStep = stopReplay v, duringDelay = (\<lambda>s. s)\<rparr>"

definition stopInDelay :: "variant \<Rightarrow> 'r tick" where
  "stopInDelay v = \<lparr>duringStep = (\<lambda>s. s), duringDelay = stopReplay v\<rparr>"

text \<open>In the player page the user presses Space twice while the timer of the running loop is
  pending. The first press runs \<^verbatim>\<open>stopReplay\<close>. The second runs \<^verbatim>\<open>startReplay\<close>, which sets
  \<^verbatim>\<open>isPlaying\<close> again and calls \<^verbatim>\<open>playFrames\<close>: this call, call 2, takes its first step and then
  waits on its own timer.\<close>

definition restartInDelay :: "'r wasm \<Rightarrow> 'r tick" where
  "restartInDelay w =
     \<lparr>duringStep = (\<lambda>s. s),
      duringDelay = (\<lambda>s.
        let s1 = stopReplay PlayerPage s in
        if \<not> isInitialized s1 \<or> \<not> ReplayLoaded s1 \<or> replay s1 = None
        then s1\<lparr>error := Some ''Player not ready''\<rparr>
        else
          (let s2 = s1\<lparr>isPlaying := True, error := None, showControls := False\<rparr>;
               lastTimeOffset = firstOffset (timing' s2)
           in outState (loopBody PlayerPage w 2 idle lastTimeOffset
                (s2\<lparr>currentTimeMs := lastTimeOffset\<rparr>))))\<rparr>"

text \<open>An ordering by character code, used as \<^verbatim>\<open>localeCompare\<close> in the examples: on the names used
  there it agrees with the platform's (digits sort before letters).\<close>

fun codeUnitCompare :: "string \<Rightarrow> string \<Rightarrow> int" where
  "codeUnitCompare [] [] = 0"
| "codeUnitCompare [] (y # ys) = - 1"
| "codeUnitCompare (x # xs) [] = 1"
| "codeUnitCompare (x # xs) (y # ys) =
     (if (of_char x :: nat) < of_char y then - 1
      else if (of_char y :: nat) < of_char x then 1
      else codeUnitCompare xs ys)"

text \<open>A stand-in for \<^verbatim>\<open>JSON.parse\<close>: it accepts the descriptor text below, which lists the two
  entries of \<open>sampleTiming\<close>, and rejects every other text, such as the cut-off text
  \<open>brokenTimingText\<close>.\<close>

definition sampleTiming :: "TimingEntry list" where
  "sampleTiming = [entryAt 0 0, entryAt 1 100]"

definition sampleTimingText :: bytes where
  \<open>sampleTimingText = map of_char
     (''[{"index":0,"type":"FastPath","source":"server","timeOffset":0,"size":4},''
      @ ''{"index":1,"type":"FastPath","source":"server","timeOffset":100,"size":4}]'')\<close>

definition brokenTimingText :: bytes where
  \<open>brokenTimingText = map of_char ''[{"index":0,''\<close>

definition sampleParse :: "bytes \<Rightarrow> TimingEntry list option" where
  "sampleParse txt = (if txt = sampleTimingText then Some sampleTiming else None)"

definition frameFile :: "string \<Rightarrow> bytes \<Rightarrow> File" where
  "frameFile n b = \<lparr>name = n, contents = Inr b\<rparr>"

definition initialUploader :: uploader where
  "initialUploader =
     \<lparr>timing = [], uploadState = \<lparr>status = Idle, message = [], progress = 0, total = 0\<rparr>,
      frameCount = 0\<rparr>"

definition emptyDatabase :: database where
  "emptyDatabase = \<lparr>frames = [], dbInstance = False, faults = []\<rparr>"

section \<open>Store lemmas\<close>

lemma frames_nextFault [simp]: "frames (snd (nextFault db)) = frames db"
  by (simp add: nextFault_def split: list.splits)

lemma frames_openDatabase [simp]: "frames (snd (openDatabase db)) = frames db"
  by (simp add: openDatabase_def nextFault_def split: list.splits option.splits)

lemma map_of_putRecord: "map_of (putRecord k v rs) = (map_of rs)(k \<mapsto> v)"
  by (induction rs) (auto simp: fun_upd_twist)

lemma storeFrame_Inr:
  "storeFrame i b db = (Inr x, db') \<Longrightarrow> frames db' = putRecord i b (frames db)"
  unfolding storeFrame_def
  apply (auto split: prod.splits sum.splits option.splits)
  apply (metis frames_nextFault frames_openDatabase snd_conv)
  done

lemma getFrame_Inr:
  "getFrame i db = (Inr r, db') \<Longrightarrow> r = map_of (frames db) i"
  unfolding getFrame_def
  apply (auto split: prod.splits sum.splits option.splits)
  apply (metis frames_nextFault frames_openDatabase snd_conv)
  done

text \<open>C7. Storing the bytes \<open>b\<close> at index \<open>i\<close> and then retrieving index \<open>i\<close> returns exactly \<open>b\<close>,
  whatever the store held before, whenever both requests go through.\<close>

theorem storeFrame_getFrame_roundtrip:
  assumes "storeFrame i b db = (Inr (), db')"
    and "getFrame i db' = (Inr r, db'')"
  shows "r = Some b"
  using storeFrame_Inr [OF assms(1)] getFrame_Inr [OF assms(2)]
  by (simp add: map_of_putRecord)

theorem storeFrame_getFrame_roundtrip_witness:
  "storeFrame 3 [1, 2] \<lparr>frames = [(1, [9]), (5, [7])], dbInstance = False, faults = []\<rparr>
     = (Inr (), \<lparr>frames = [(1, [9]), (3, [1, 2]), (5, [7])], dbInstance = True, faults = []\<rparr>)
   \<and> getFrame 3 \<lparr>frames = [(1, [9]), (3, [1, 2]), (5, [7])], dbInstance = True, faults = []\<rparr>
     = (Inr (Some [1, 2]), \<lparr>frames = [(1, [9]), (3, [1, 2]), (5, [7])], dbInstance = True, faults = []\<rparr>)"
proof -
  let ?db = "\<lparr>frames = [(1, [9]), (5, [7::8 word])], dbInstance = False, faults = []\<rparr>"
  let ?db' = "\<lparr>frames = [(1, [9]), (3, [1, 2]), (5, [7::8 word])], dbInstance = True, faults = []\<rparr>"
  have put: "storeFrame 3 [1, 2] ?db = (Inr (), ?db')"
    by (simp add: storeFrame_def openDatabase_def nextFault_def)
  have get: "getFrame 3 ?db' = (Inr (map_of (frames ?db') 3), ?db')"
    by (simp add: getFrame_def openDatabase_def nextFault_def)
  from storeFrame_getFrame_roundtrip [OF put get] have "map_of (frames ?db') 3 = Some [1, 2]" .
  with put get show ?thesis by simp
qed

lemmas sample_defs = countingEngine_def frameEngine_def shortFrameEngine_def readyPlayer_def entryAt_def
  idle_def stopInStep_def stopInDelay_def restartInDelay_def

section \<open>Reset\<close>

text \<open>C8. With a live session handle, reset sets \<^verbatim>\<open>currentFrame\<close> to 0 and rewinds the engine; the
  handle stays in place. A second reset right after it leaves \<^verbatim>\<open>currentFrame\<close> at 0 with the
  handle still in place.\<close>

theorem resetReplay_twice:
  assumes "replay s = Some r"
  shows "currentFrame (resetReplay v w s) = 0
       \<and> replay (resetReplay v w s) = Some (reset w r)
       \<and> currentFrame (resetReplay v w (resetReplay v w s)) = 0
       \<and> replay (resetReplay v w (resetReplay v w s)) = Some (reset w (reset w r))
       \<and> currentTimeMs (resetReplay v w (resetReplay v w s)) = 0
       \<and> count_list (trace (resetReplay v w (resetReplay v w s))) CreateCalled = count_list (trace s) CreateCalled"
  using assms by (simp add: resetReplay_def Let_def emit_def)

theorem resetReplay_twice_witness:
  "replay (readyPlayer [] (Some 2)\<lparr>currentFrame := 2\<rparr>) = Some 2
   \<and> currentFrame (resetReplay PlayerPage (countingEngine 3) (readyPlayer [] (Some 2)\<lparr>currentFrame := 2\<rparr>)) = 0
   \<and> replay (resetReplay PlayerPage (countingEngine 3) (readyPlayer [] (Some 2)\<lparr>currentFrame := 2\<rparr>)) = Some 0
   \<and> currentFrame (resetReplay PlayerPage (countingEngine 3)
        (resetReplay PlayerPage (countingEngine 3) (readyPlayer [] (Some 2)\<lparr>currentFrame := 2\<rparr>))) = 0
   \<and> replay (resetReplay PlayerPage (countingEngine 3)
        (resetReplay PlayerPage (countingEngine 3) (readyPlayer [] (Some 2)\<lparr>currentFrame := 2\<rparr>))) = Some 0"
proof -
  let ?s = "readyPlayer [] (Some 2)\<lparr>currentFrame := 2\<rparr>"
  have live: "replay ?s = Some 2" by (simp add: sample_defs)
  have rewind: "reset (countingEngine 3) 2 = 0" "reset (countingEngine 3) 0 = 0"
    by (simp_all add: sample_defs)
  from resetReplay_twice [OF live, of PlayerPage "countingEngine 3"] live rewind
  show ?thesis by simp
qed

section \<open>Numbers\<close>

lemma bitLength_le: "n < 2 ^ k \<Longrightarrow> bitLength n \<le> k"
proof (induction n arbitrary: k rule: bitLength.induct)
  case (1 n)
  show ?case
  proof (cases "n = 0")
    case True
    then show ?thesis by (simp add: bitLength.simps)
  next
    case False
    with "1.prems" obtain j where k: "k = Suc j" by (cases k) auto
    with "1.prems" have "n div 2 < 2 ^ j" by auto
    with "1.IH" [OF False] have "bitLength (n div 2) \<le> j" by simp
    with False k show ?thesis by (subst bitLength.simps) simp
  qed
qed

lemma bitLength_pow: "0 < n \<Longrightarrow> 2 ^ (bitLength n - 1) \<le> n"
proof (induction n rule: bitLength.induct)
  case (1 n)
  show ?case
  proof (cases "n div 2 = 0")
    case True
    with "1.prems" show ?thesis by (subst bitLength.simps) (simp add: bitLength.simps)
  next
    case False
    with "1.IH" "1.prems" have ih: "2 ^ (bitLength (n div 2) - 1) \<le> n div 2" by simp
    from False have pos: "0 < bitLength (n div 2)" by (subst bitLength.simps) simp
    have "bitLength n = Suc (bitLength (n div 2))" using "1.prems" by (subst bitLength.simps) simp
    then have "2 ^ (bitLength n - 1) = 2 * 2 ^ (bitLength (n div 2) - 1)"
      using pos by (cases "bitLength (n div 2)") simp_all
    also have "\<dots> \<le> 2 * (n div 2)" using ih by simp
    also have "\<dots> \<le> n" by simp
    finally show ?thesis .
  qed
qed

lemma roundDouble_small: "n < 2 ^ 53 \<Longrightarrow> roundDouble n = enat n"
proof -
  assume a: "n < 2 ^ 53"
  then have "bitLength n - 53 = 0" using bitLength_le [of n 53] by simp
  with a show ?thesis by (simp add: roundDouble_def Let_def)
qed

lemma roundDouble_zero_iff: "roundDouble n = enat 0 \<longleftrightarrow> n = 0"
proof
  assume "n = 0"
  then show "roundDouble n = enat 0" by (simp add: roundDouble_small)
next
  assume r: "roundDouble n = enat 0"
  show "n = 0"
  proof (rule ccontr)
    assume "n \<noteq> 0"
    then have pos: "0 < n" by simp
    let ?e = "bitLength n - 53"
    have "2 ^ ?e \<le> (2::nat) ^ (bitLength n - 1)" by (rule power_increasing) simp_all
    also have "\<dots> \<le> n" using pos by (rule bitLength_pow)
    finally have "2 ^ ?e \<le> n" .
    then have "0 < n div 2 ^ ?e" by (simp add: div_greater_zero_iff)
    with r show False by (auto simp: roundDouble_def Let_def split: if_splits)
  qed
qed

lemma signOf_jsMinus:
  "signOf (jsMinus p q) = (if p < q then - 1 else if p = q then 0 else 1)"
proof (cases p; cases q)
  fix x y
  assume pq: "p = enat x" "q = enat y"
  show ?thesis
  proof (cases "y \<le> x")
    case True
    show ?thesis
    proof (cases "roundDouble (x - y)")
      case (enat m)
      with roundDouble_zero_iff [of "x - y"] have "m = 0 \<longleftrightarrow> x = y" using True by auto
      with enat pq True show ?thesis by (auto simp: jsMinus_def)
    next
      case infinity
      with roundDouble_zero_iff [of "x - y"] have "x \<noteq> y" by auto
      with infinity pq True show ?thesis by (auto simp: jsMinus_def)
    qed
  next
    case False
    show ?thesis
    proof (cases "roundDouble (y - x)")
      case (enat m)
      with roundDouble_zero_iff [of "y - x"] have "m \<noteq> 0" using False by auto
      with enat pq False show ?thesis by (auto simp: jsMinus_def)
    next
      case infinity
      with pq False show ?thesis by (auto simp: jsMinus_def)
    qed
  qed
qed (auto simp: jsMinus_def)

text \<open>The first integer that is not a double rounds down to \<open>2^53\<close>.\<close>

lemma bitLength_above: "bitLength 9007199254740993 = 54"
  by (simp add: bitLength.simps)

lemma roundDouble_above: "roundDouble 9007199254740993 = 9007199254740992"
  by (simp add: roundDouble_def bitLength_above Let_def numeral_eq_enat)

lemma parseInt_above: "parseInt ''9007199254740993'' = 9007199254740992"
  by (simp add: parseInt_def decimalValue_def isDigit_def digitVal_def roundDouble_above)

lemmas store_defs = openDatabase_def nextFault_def clearFrames_def storeFrame_def getFrame_def
  getFrameCount_def

lemma bitLength_even: "bitLength 9007199254740992 = 54"
  by (simp add: bitLength.simps)

lemma roundDouble_even: "roundDouble 9007199254740992 = 9007199254740992"
  by (simp add: roundDouble_def bitLength_even Let_def numeral_eq_enat)

lemmas number_defs = parseInt_def decimalValue_def isDigit_def digitVal_def jsMinus_def
  roundDouble_small roundDouble_above roundDouble_even numeral_eq_enat

lemmas ingest_defs = handleFolderSelect_def naturalSort_def sortBy_def compareFiles_def
  matchLeadingDigits_def isPduName_def loadTiming_def pduFilesOf_def storeAll_def Let_def
  number_defs

lemmas ingest_samples = frameFile_def initialUploader_def emptyDatabase_def sampleParse_def
  sampleTiming_def sampleTimingText_def brokenTimingText_def entryAt_def

section \<open>Ingestion\<close>

text \<open>C2. A first ingestion loads the timing entries of its descriptor. A second ingestion whose
  \<^verbatim>\<open>timing.json\<close> does not parse succeeds, and \<open>timing\<close> still holds the entries of the first
  session instead of the empty sequence.\<close>

theorem handleFolderSelect_stale_timing:
  "timing (fst (handleFolderSelect codeUnitCompare sampleParse
       [\<lparr>name = ''timing.json'', contents = Inr sampleTimingText\<rparr>, frameFile ''0'' [1], frameFile ''1'' [2]]
       (initialUploader, emptyDatabase))) = sampleTiming
   \<and> sampleParse brokenTimingText = None
   \<and> timing (fst (handleFolderSelect codeUnitCompare sampleParse
         [\<lparr>name = ''timing.json'', contents = Inr brokenTimingText\<rparr>, frameFile ''0'' [3]]
         (handleFolderSelect codeUnitCompare sampleParse
            [\<lparr>name = ''timing.json'', contents = Inr sampleTimingText\<rparr>, frameFile ''0'' [1], frameFile ''1'' [2]]
            (initialUploader, emptyDatabase)))) = sampleTiming
   \<and> status (uploadState (fst (handleFolderSelect codeUnitCompare sampleParse
         [\<lparr>name = ''timing.json'', contents = Inr brokenTimingText\<rparr>, frameFile ''0'' [3]]
         (handleFolderSelect codeUnitCompare sampleParse
            [\<lparr>name = ''timing.json'', contents = Inr sampleTimingText\<rparr>, frameFile ''0'' [1], frameFile ''1'' [2]]
            (initialUploader, emptyDatabase))))) = Success
   \<and> sampleTiming \<noteq> []"
  by (simp add: ingest_defs ingest_samples store_defs)

lemma takeWhile_isDigit_pdu: "isPduName n \<Longrightarrow> takeWhile isDigit n = n"
  by (simp add: isPduName_def list_all_iff)

lemma matchLeadingDigits_pdu: "isPduName n \<Longrightarrow> matchLeadingDigits n = Some n"
  by (simp add: matchLeadingDigits_def takeWhile_isDigit_pdu) (simp add: isPduName_def)

lemma matchLeadingDigits_Some:
  "matchLeadingDigits n = Some x \<Longrightarrow> x = takeWhile isDigit n"
  by (auto simp: matchLeadingDigits_def Let_def split: if_splits)

lemma parseInt_leading: "matchLeadingDigits n = Some x \<Longrightarrow> parseInt x = parseInt n"
  by (drule matchLeadingDigits_Some) (simp add: parseInt_def)

lemma parseInt_pdu: "isPduName n \<Longrightarrow> parseInt n = roundDouble (decimalValue n)"
  by (simp add: parseInt_def takeWhile_isDigit_pdu)

lemma compareFiles_numeric:
  "matchLeadingDigits (name a) \<noteq> None \<Longrightarrow> matchLeadingDigits (name b) \<noteq> None \<Longrightarrow>
     signOf (compareFiles lc a b)
       = (if parseInt (name a) < parseInt (name b) then - 1
          else if parseInt (name a) = parseInt (name b) then 0 else 1)"
  by (auto simp: compareFiles_def parseInt_leading signOf_jsMinus)

lemma set_insertBy [simp]: "set (insertBy cmp x ys) = insert x (set ys)"
  by (induction ys) auto

lemma mset_insertBy [simp]: "mset (insertBy cmp x ys) = add_mset x (mset ys)"
  by (induction ys) auto

lemma mset_sortBy [simp]: "mset (sortBy cmp xs) = mset xs"
  by (induction xs) (simp_all add: sortBy_def)

lemma mset_naturalSort [simp]: "mset (naturalSort lc files) = mset files"
  by (simp add: naturalSort_def)

lemma set_naturalSort [simp]: "set (naturalSort lc files) = set files"
  by (metis mset_naturalSort set_mset_mset)

lemma sorted_insertBy:
  assumes "\<And>y. y \<in> set ys \<Longrightarrow> (signOf (cmp x y) \<le> 0) = (key x \<le> key y)"
    and "sorted_wrt (\<lambda>a b. key a \<le> (key b :: enat)) ys"
  shows "sorted_wrt (\<lambda>a b. key a \<le> key b) (insertBy cmp x ys)"
  using assms
proof (induction ys)
  case Nil
  then show ?case by simp
next
  case (Cons y ys)
  then show ?case by (fastforce simp: le_trans)
qed

lemma sorted_naturalSort:
  assumes "\<forall>f \<in> set files. matchLeadingDigits (name f) \<noteq> None"
  shows "sorted_wrt (\<lambda>a b. parseInt (name a) \<le> parseInt (name b)) (naturalSort lc files)"
  using assms
proof (induction files)
  case Nil
  then show ?case by (simp add: naturalSort_def sortBy_def)
next
  case (Cons f fs)
  then have sorted: "sorted_wrt (\<lambda>a b. parseInt (name a) \<le> parseInt (name b)) (naturalSort lc fs)"
    by simp
  have cmp: "(signOf (compareFiles lc f y) \<le> 0) = (parseInt (name f) \<le> parseInt (name y))"
    if "y \<in> set (naturalSort lc fs)" for y
    using that Cons.prems by (auto simp: compareFiles_numeric)
  have "naturalSort lc (f # fs) = insertBy (compareFiles lc) f (naturalSort lc fs)"
    by (simp add: naturalSort_def sortBy_def)
  with sorted_insertBy [of "naturalSort lc fs" "compareFiles lc" f "\<lambda>a. parseInt (name a)", OF cmp sorted]
  show ?case by simp
qed

lemma sample_sort:
  assumes "lc ''1'' ''timing.json'' < 0" and "lc ''2'' ''timing.json'' < 0" and "lc ''10'' ''timing.json'' < 0"
  shows "map name (pduFilesOf (naturalSort lc
           [\<lparr>name = ''10'', contents = c1\<rparr>, \<lparr>name = ''2'', contents = c2\<rparr>,
            \<lparr>name = ''1'', contents = c3\<rparr>, \<lparr>name = ''timing.json'', contents = c4\<rparr>]))
         = [''1'', ''2'', ''10'']"
  using assms
  by (simp add: naturalSort_def sortBy_def compareFiles_def matchLeadingDigits_def
      isPduName_def pduFilesOf_def Let_def number_defs)

text \<open>C4. When both names have a leading run of digits, the comparator of the sort subtracts
  the numbers \<^verbatim>\<open>parseInt\<close> reads from the runs, so its sign orders the names by those numbers (as
  JavaScript numbers: beyond \<open>2^53\<close> neighbouring integers round to one number and compare as
  equal); otherwise it is the platform's numeric-aware \<^verbatim>\<open>localeCompare\<close>. A collection of names
  that all start with a digit is sorted by those numbers. The names \<^verbatim>\<open>10\<close>, \<^verbatim>\<open>2\<close>, \<^verbatim>\<open>1\<close>,
  \<^verbatim>\<open>timing.json\<close> give the frame candidates \<^verbatim>\<open>1\<close>, \<^verbatim>\<open>2\<close>, \<^verbatim>\<open>10\<close> (the platform sorts digits before
  letters).\<close>

theorem naturalSort_numeric_order:
  "(matchLeadingDigits (name a) = Some x \<and> matchLeadingDigits (name b) = Some y \<longrightarrow>
      compareFiles lc a b = jsMinus (parseInt x) (parseInt y)
      \<and> signOf (compareFiles lc a b)
          = (if parseInt x < parseInt y then - 1 else if parseInt x = parseInt y then 0 else 1))
   \<and> (matchLeadingDigits (name a) = None \<or> matchLeadingDigits (name b) = None \<longrightarrow>
      compareFiles lc a b = Num (lc (name a) (name b)))
   \<and> (isPduName (name a) \<and> isPduName (name b) \<longrightarrow>
      parseInt (name a) = roundDouble (decimalValue (name a))
      \<and> signOf (compareFiles lc a b)
          = (if parseInt (name a) < parseInt (name b) then - 1
             else if parseInt (name a) = parseInt (name b) then 0 else 1))
   \<and> ((\<forall>f \<in> set files. matchLeadingDigits (name f) \<noteq> None) \<longrightarrow>
      sorted_wrt (\<lambda>a b. parseInt (name a) \<le> parseInt (name b)) (naturalSort lc files)
      \<and> mset (naturalSort lc files) = mset files)
   \<and> (lc ''1'' ''timing.json'' < 0 \<and> lc ''2'' ''timing.json'' < 0 \<and> lc ''10'' ''timing.json'' < 0 \<longrightarrow>
      map name (pduFilesOf (naturalSort lc
           [\<lparr>name = ''10'', contents = c1\<rparr>, \<lparr>name = ''2'', contents = c2\<rparr>,
            \<lparr>name = ''1'', contents = c3\<rparr>, \<lparr>name = ''timing.json'', contents = c4\<rparr>]))
         = [''1'', ''2'', ''10''])"
proof -
  have c1: "matchLeadingDigits (name a) = Some x \<and> matchLeadingDigits (name b) = Some y \<longrightarrow>
      compareFiles lc a b = jsMinus (parseInt x) (parseInt y)
      \<and> signOf (compareFiles lc a b)
          = (if parseInt x < parseInt y then - 1 else if parseInt x = parseInt y then 0 else 1)"
    by (simp add: compareFiles_def signOf_jsMinus)
  have c2: "matchLeadingDigits (name a) = None \<or> matchLeadingDigits (name b) = None \<longrightarrow>
      compareFiles lc a b = Num (lc (name a) (name b))"
    by (auto simp: compareFiles_def split: option.splits)
  have c3: "isPduName (name a) \<and> isPduName (name b) \<longrightarrow>
      parseInt (name a) = roundDouble (decimalValue (name a))
      \<and> signOf (compareFiles lc a b)
          = (if parseInt (name a) < parseInt (name b) then - 1
             else if parseInt (name a) = parseInt (name b) then 0 else 1)"
    using compareFiles_numeric [of a b lc] by (simp add: matchLeadingDigits_pdu parseInt_pdu)
  have c4: "(\<forall>f \<in> set files. matchLeadingDigits (name f) \<noteq> None) \<longrightarrow>
      sorted_wrt (\<lambda>a b. parseInt (name a) \<le> parseInt (name b)) (naturalSort lc files)
      \<and> mset (naturalSort lc files) = mset files"
    using sorted_naturalSort [of files lc] by simp
  have c5: "lc ''1'' ''timing.json'' < 0 \<and> lc ''2'' ''timing.json'' < 0 \<and> lc ''10'' ''timing.json'' < 0 \<longrightarrow>
      map name (pduFilesOf (naturalSort lc
           [\<lparr>name = ''10'', contents = c1\<rparr>, \<lparr>name = ''2'', contents = c2\<rparr>,
            \<lparr>name = ''1'', contents = c3\<rparr>, \<lparr>name = ''timing.json'', contents = c4\<rparr>]))
         = [''1'', ''2'', ''10'']"
    using sample_sort [of lc c1 c2 c3 c4] by blast
  from c1 c2 c3 c4 c5 show ?thesis by (intro conjI)
qed

theorem naturalSort_numeric_order_witness:
  "matchLeadingDigits (name (frameFile ''2'' [])) = Some ''2''
   \<and> matchLeadingDigits (name (frameFile ''10abc'' [])) = Some ''10''
   \<and> compareFiles codeUnitCompare (frameFile ''2'' []) (frameFile ''10abc'' []) = Num (- 8)
   \<and> isPduName ''9007199254740993'' \<and> isPduName ''9007199254740992''
   \<and> parseInt ''9007199254740993'' = 9007199254740992
   \<and> signOf (compareFiles codeUnitCompare (frameFile ''9007199254740993'' [])
        (frameFile ''9007199254740992'' [])) = 0
   \<and> matchLeadingDigits (name (frameFile ''timing.json'' [])) = None
   \<and> compareFiles codeUnitCompare (frameFile ''timing.json'' []) (frameFile ''10'' []) = Num 1
   \<and> sorted_wrt (\<lambda>a b. parseInt (name a) \<le> parseInt (name b))
        (naturalSort codeUnitCompare [frameFile ''10'' [], frameFile ''2'' [], frameFile ''1'' []])
   \<and> codeUnitCompare ''1'' ''timing.json'' < 0 \<and> codeUnitCompare ''2'' ''timing.json'' < 0
   \<and> codeUnitCompare ''10'' ''timing.json'' < 0
   \<and> map name (pduFilesOf (naturalSort codeUnitCompare
         [frameFile ''10'' [1], frameFile ''2'' [2], frameFile ''1'' [3], frameFile ''timing.json'' sampleTimingText]))
       = [''1'', ''2'', ''10'']"
proof -
  let ?files = "[frameFile ''10'' [], frameFile ''2'' [], frameFile ''1'' []]"
  let ?big = "frameFile ''9007199254740993'' []" and ?even = "frameFile ''9007199254740992'' []"
  have lead: "matchLeadingDigits (name (frameFile ''2'' [])) = Some ''2''"
      "matchLeadingDigits (name (frameFile ''10abc'' [])) = Some ''10''"
      "matchLeadingDigits (name (frameFile ''timing.json'' [])) = None"
    and pdu: "isPduName ''9007199254740993''" "isPduName ''9007199254740992''"
      "isPduName (name ?big)" "isPduName (name ?even)"
    and diff: "jsMinus (parseInt ''2'') (parseInt ''10'') = Num (- 8)"
    and twins: "parseInt (name ?big) = 9007199254740992" "parseInt (name ?even) = 9007199254740992"
      "parseInt ''9007199254740993'' = 9007199254740992"
    and all: "\<forall>f \<in> set ?files. matchLeadingDigits (name f) \<noteq> None"
    and lc: "codeUnitCompare ''1'' ''timing.json'' < 0" "codeUnitCompare ''2'' ''timing.json'' < 0"
      "codeUnitCompare ''10'' ''timing.json'' < 0" "codeUnitCompare ''timing.json'' ''10'' = 1"
    by (simp_all add: frameFile_def matchLeadingDigits_def isPduName_def number_defs)
  note digits = naturalSort_numeric_order [of "frameFile ''2'' []" "''2''" "frameFile ''10abc'' []" "''10''"
      codeUnitCompare ?files "Inr [1]" "Inr [2]" "Inr [3]" "Inr sampleTimingText"]
  note round = naturalSort_numeric_order [of ?big "''2''" ?even "''10''"
      codeUnitCompare ?files "Inr [1]" "Inr [2]" "Inr [3]" "Inr sampleTimingText"]
  note other = naturalSort_numeric_order [of "frameFile ''timing.json'' []" "''2''" "frameFile ''10'' []" "''10''"
      codeUnitCompare ?files "Inr [1]" "Inr [2]" "Inr [3]" "Inr sampleTimingText"]
  from digits lead diff have c1: "compareFiles codeUnitCompare (frameFile ''2'' []) (frameFile ''10abc'' []) = Num (- 8)"
    by simp
  from round pdu(3,4) have "signOf (compareFiles codeUnitCompare ?big ?even)
      = (if parseInt (name ?big) < parseInt (name ?even) then - 1
         else if parseInt (name ?big) = parseInt (name ?even) then 0 else 1)" by blast
  then have c0: "signOf (compareFiles codeUnitCompare ?big ?even) = 0"
    by (simp only: twins) simp
  from other lead lc have c2: "compareFiles codeUnitCompare (frameFile ''timing.json'' []) (frameFile ''10'' []) = Num 1"
    by (simp add: frameFile_def)
  from digits all have c3: "sorted_wrt (\<lambda>a b. parseInt (name a) \<le> parseInt (name b))
        (naturalSort codeUnitCompare ?files)" by blast
  from digits lc have c4: "map name (pduFilesOf (naturalSort codeUnitCompare
         [frameFile ''10'' [1], frameFile ''2'' [2], frameFile ''1'' [3], frameFile ''timing.json'' sampleTimingText]))
       = [''1'', ''2'', ''10'']"
    by (simp add: frameFile_def)
  show ?thesis
    using lead(1,2) c1 pdu(1,2) twins(3) c0 lead(3) c2 c3 lc(1,2,3) c4 by (intro conjI)
qed

lemma putRecord_commute:
  "k \<noteq> k' \<Longrightarrow> putRecord k v (putRecord k' v' rs) = putRecord k' v' (putRecord k v rs)"
  by (induction rs) auto







lemma map_of_fold_putFile_other:
  "filter (\<lambda>f. parseInt (name f) = k) fs = [] \<Longrightarrow> map_of (fold putFile fs rs) k = map_of rs k"
  by (induction fs arbitrary: rs) (auto simp: putFile_def map_of_putRecord split: if_splits)

lemma map_of_fold_putFile_last:
  "filter (\<lambda>f. parseInt (name f) = k) fs \<noteq> [] \<Longrightarrow>
     map_of (fold putFile fs rs) k = Some (fileBytes (last (filter (\<lambda>f. parseInt (name f) = k) fs)))"
proof (induction fs arbitrary: rs)
  case Nil
  then show ?case by simp
next
  case (Cons f fs)
  show ?case
  proof (cases "filter (\<lambda>f. parseInt (name f) = k) fs = []")
    case True
    with Cons.prems have "parseInt (name f) = k" by (auto split: if_splits)
    have "map_of (fold putFile fs (putFile f rs)) k = map_of (putFile f rs) k"
      using True by (rule map_of_fold_putFile_other)
    also have "\<dots> = Some (fileBytes f)"
      using \<open>parseInt (name f) = k\<close> by (simp add: putFile_def map_of_putRecord)
    finally show ?thesis using True \<open>parseInt (name f) = k\<close> by simp
  next
    case False
    with Cons.IH [OF False, of "putFile f rs"] show ?thesis by simp
  qed
qed

lemma fold_putFile_permute:
  assumes "mset fs = mset gs" and "distinct (map (\<lambda>f. parseInt (name f)) fs)"
  shows "fold putFile fs rs = fold putFile gs rs"
proof -
  have "putFile x \<circ> putFile y = putFile y \<circ> putFile x" if "x \<in> set fs" "y \<in> set fs" for x y
  proof (cases "x = y")
    case True
    then show ?thesis by simp
  next
    case False
    from assms(2) have "inj_on (\<lambda>f. parseInt (name f)) (set fs)" by (simp add: distinct_map)
    with that False have "parseInt (name x) \<noteq> parseInt (name y)" by (auto dest: inj_onD)
    then show ?thesis by (auto simp: putFile_def putRecord_commute fun_eq_iff)
  qed
  then have "List.fold putFile fs = List.fold putFile gs"
    using assms(1) by (rule fold_multiset_equiv)
  then show ?thesis by simp
qed


lemma clearFrames_Inr: "clearFrames db = (Inr x, db') \<Longrightarrow> frames db' = [] \<and> dbInstance db'"
  by (auto simp: clearFrames_def openDatabase_def nextFault_def
        split: prod.splits sum.splits option.splits list.splits if_splits)

lemma getFrameCount_Inr:
  "getFrameCount db = (Inr c, db') \<Longrightarrow> c = length (frames db) \<and> frames db' = frames db"
  by (auto simp: getFrameCount_def openDatabase_def nextFault_def
        split: prod.splits sum.splits option.splits list.splits if_splits)

lemma storeFiles_Inr:
  "storeFiles n i fs u db = (Inr x, u', db') \<Longrightarrow>
     frames db' = fold putFile fs (frames db) \<and> (\<forall>f \<in> set fs. contents f = Inr (fileBytes f))"
proof (induction fs arbitrary: i u db)
  case Nil
  then show ?case by simp
next
  case (Cons f fs)
  from Cons.prems obtain b where b: "contents f = Inr b"
    by (cases "contents f") simp_all
  with Cons.prems obtain db1 where
    put: "storeFrame (parseInt (name f)) b db = (Inr (), db1)"
    and rest: "storeFiles n (i + 1) fs
        (u\<lparr>uploadState := (uploadState u)\<lparr>progress := i + 1,
            message := ''Loaded '' @ showNat (i + 1) @ ''/'' @ showNat n @ '': '' @ name f\<rparr>\<rparr>) db1
        = (Inr x, u', db')"
    by (auto split: prod.splits sum.splits)
  from storeFrame_Inr [OF put] b have "frames db1 = putFile f (frames db)"
    by (simp add: putFile_def fileBytes_def)
  with Cons.IH [OF rest] b show ?case by (simp add: fileBytes_def)
qed

lemma handleFolderSelect_Success:
  assumes "status (uploadState (fst (handleFolderSelect lc parse files (u, db)))) = Success"
  shows "frames (snd (handleFolderSelect lc parse files (u, db)))
           = fold putFile (pduFilesOf (naturalSort lc files)) []
       \<and> frameCount (fst (handleFolderSelect lc parse files (u, db)))
           = length (frames (snd (handleFolderSelect lc parse files (u, db))))
       \<and> (\<forall>f \<in> set (pduFilesOf (naturalSort lc files)). contents f = Inr (fileBytes f))"
proof -
  let ?cands = "pduFilesOf (naturalSort lc files)"
  let ?u2 = "(loadTiming parse (naturalSort lc files) u)\<lparr>uploadState := \<lparr>status = Loading,
                      message = ''Loading '' @ showNat (length ?cands) @ '' PDU files...'',
                      progress = 0, total = length ?cands\<rparr>\<rparr>"
  from assms have nonempty: "files \<noteq> []"
    by (auto simp: handleFolderSelect_def)
  obtain res u3 db3 where all: "storeAll ?cands ?u2 db = (res, u3, db3)"
    by (cases "storeAll ?cands ?u2 db") auto
  with assms nonempty obtain x where ok: "res = Inr x"
    by (cases res) (auto simp: handleFolderSelect_def Let_def)
  with all nonempty have result: "handleFolderSelect lc parse files (u, db) = (u3, db3)"
    by (simp add: handleFolderSelect_def Let_def)
  from all ok obtain y db1 z ua db2 c where
    clear: "clearFrames db = (Inr y, db1)"
    and loop: "storeFiles (length ?cands) 0 ?cands ?u2 db1 = (Inr z, ua, db2)"
    and cnt: "getFrameCount db2 = (Inr c, db3)"
    and u3: "frameCount u3 = c"
    by (auto simp: storeAll_def split: prod.splits sum.splits)
  from clearFrames_Inr [OF clear] storeFiles_Inr [OF loop] getFrameCount_Inr [OF cnt] u3 result
  show ?thesis by simp
qed


lemma mset_pduFilesOf_naturalSort: "mset (pduFilesOf (naturalSort lc files)) = mset (pduFilesOf files)"
  by (simp add: pduFilesOf_def)

lemma map_of_fold_putFile_distinct:
  assumes "distinct (map (\<lambda>f. parseInt (name f)) fs)"
  shows "map_of (fold putFile fs []) = map_of (map (\<lambda>f. (parseInt (name f), fileBytes f)) fs)"
proof
  fix k
  show "map_of (fold putFile fs []) k = map_of (map (\<lambda>f. (parseInt (name f), fileBytes f)) fs) k"
  proof (cases "filter (\<lambda>f. parseInt (name f) = k) fs = []")
    case True
    then have "k \<notin> fst ` set (map (\<lambda>f. (parseInt (name f), fileBytes f)) fs)"
      by (auto simp: filter_empty_conv)
    then have "map_of (map (\<lambda>f. (parseInt (name f), fileBytes f)) fs) k = None"
      by (metis map_of_eq_None_iff)
    with True show ?thesis by (simp add: map_of_fold_putFile_other)
  next
    case False
    let ?g = "last (filter (\<lambda>f. parseInt (name f) = k) fs)"
    from False have "?g \<in> set (filter (\<lambda>f. parseInt (name f) = k) fs)" by (rule last_in_set)
    then have g: "?g \<in> set fs" "parseInt (name ?g) = k" by simp_all
    from assms have "distinct (map fst (map (\<lambda>f. (parseInt (name f), fileBytes f)) fs))"
      by (simp add: comp_def)
    moreover have "(\<lambda>f. (parseInt (name f), fileBytes f)) ?g
        \<in> (\<lambda>f. (parseInt (name f), fileBytes f)) ` set fs"
      using g(1) by (rule imageI)
    then have "(k, fileBytes ?g) \<in> set (map (\<lambda>f. (parseInt (name f), fileBytes f)) fs)"
      using g(2) by simp
    ultimately have "map_of (map (\<lambda>f. (parseInt (name f), fileBytes f)) fs) k = Some (fileBytes ?g)"
      by (rule map_of_is_SomeI)
    with False show ?thesis by (simp add: map_of_fold_putFile_last)
  qed
qed


lemma map_of_fold_putFile:
  "map_of (fold putFile fs rs) = map_of rs ++ map_of (rev (map (\<lambda>f. (parseInt (name f), fileBytes f)) fs))"
proof (induction fs arbitrary: rs)
  case Nil
  then show ?case by simp
next
  case (Cons f fs)
  let ?M = "map_of (rev (map (\<lambda>f. (parseInt (name f), fileBytes f)) fs))"
  have "map_of (fold putFile (f # fs) rs) = map_of (putFile f rs) ++ ?M"
    using Cons.IH [of "putFile f rs"] by simp
  also have "map_of (putFile f rs) = (map_of rs)(parseInt (name f) \<mapsto> fileBytes f)"
    by (simp add: putFile_def map_of_putRecord)
  also have "(map_of rs)(parseInt (name f) \<mapsto> fileBytes f) = map_of rs ++ [parseInt (name f) \<mapsto> fileBytes f]"
    by simp
  also have "(map_of rs ++ [parseInt (name f) \<mapsto> fileBytes f]) ++ ?M
      = map_of rs ++ ([parseInt (name f) \<mapsto> fileBytes f] ++ ?M)"
    by (rule map_add_assoc [symmetric])
  also have "[parseInt (name f) \<mapsto> fileBytes f] ++ ?M
      = map_of (rev (map (\<lambda>f. (parseInt (name f), fileBytes f)) (f # fs)))"
    by (simp del: map_add_upd)
  finally show ?case .
qed

lemma pduFilesOf_names: "f \<in> set (pduFilesOf fs) \<Longrightarrow> isPduName (name f)"
  by (simp add: pduFilesOf_def)

text \<open>Two files whose names parse to the same number, as \<^verbatim>\<open>7\<close> and \<^verbatim>\<open>007\<close> do, and as
  \<^verbatim>\<open>9007199254740993\<close> and \<^verbatim>\<open>9007199254740992\<close> do by rounding: the store ends up with the bytes
  of the one that comes later in the selection, so the two orders of the same two files give
  different stores.\<close>

theorem handleFolderSelect_order_matters:
  "frames (snd (handleFolderSelect codeUnitCompare sampleParse [frameFile ''7'' [1], frameFile ''007'' [2]]
      (initialUploader, emptyDatabase))) = [(7, [2])]
   \<and> frames (snd (handleFolderSelect codeUnitCompare sampleParse [frameFile ''007'' [2], frameFile ''7'' [1]]
      (initialUploader, emptyDatabase))) = [(7, [1])]
   \<and> status (uploadState (fst (handleFolderSelect codeUnitCompare sampleParse
      [frameFile ''7'' [1], frameFile ''007'' [2]] (initialUploader, emptyDatabase)))) = Success
   \<and> status (uploadState (fst (handleFolderSelect codeUnitCompare sampleParse
      [frameFile ''007'' [2], frameFile ''7'' [1]] (initialUploader, emptyDatabase)))) = Success
   \<and> frames (snd (handleFolderSelect codeUnitCompare sampleParse
      [frameFile ''9007199254740993'' [1], frameFile ''9007199254740992'' [2]]
      (initialUploader, emptyDatabase))) = [(9007199254740992, [2])]
   \<and> frames (snd (handleFolderSelect codeUnitCompare sampleParse
      [frameFile ''9007199254740992'' [2], frameFile ''9007199254740993'' [1]]
      (initialUploader, emptyDatabase))) = [(9007199254740992, [1])]"
  by (simp add: ingest_defs ingest_samples store_defs)

text \<open>C5 (order independence for names that parse to pairwise distinct numbers). An ingestion
  that succeeds first clears the store and then writes each frame candidate's bytes under the
  number \<^verbatim>\<open>parseInt\<close> reads from its own name (a JavaScript number: names beyond \<open>2^53\<close> round),
  not under its position; a later candidate with the same number replaces the earlier one,
  and the store holds nothing else. Hence, when the numbers parsed from the candidates' names
  are pairwise distinct, every candidate's bytes are in the store under its number and the
  final store contents do not depend on the order in which the files are given or visited, nor
  on what the store held before.\<close>

theorem handleFolderSelect_order_independent:
  assumes "status (uploadState (fst (handleFolderSelect lc parse files (u, db)))) = Success"
  shows "map_of (frames (snd (handleFolderSelect lc parse files (u, db))))
           = map_of (rev (map (\<lambda>f. (parseInt (name f), fileBytes f)) (pduFilesOf (naturalSort lc files))))
       \<and> (\<forall>f \<in> set (pduFilesOf files).
             contents f = Inr (fileBytes f)
             \<and> parseInt (name f) = roundDouble (decimalValue (name f))
             \<and> map_of (frames (snd (handleFolderSelect lc parse files (u, db)))) (parseInt (name f))
                 = Some (fileBytes (last (filter (\<lambda>g. parseInt (name g) = parseInt (name f))
                     (pduFilesOf (naturalSort lc files))))))
       \<and> (distinct (map (\<lambda>f. parseInt (name f)) (pduFilesOf files)) \<longrightarrow>
             (\<forall>f \<in> set (pduFilesOf files).
                map_of (frames (snd (handleFolderSelect lc parse files (u, db)))) (parseInt (name f))
                  = Some (fileBytes f))
             \<and> (status (uploadState (fst (handleFolderSelect lc' parse' files' (u', db')))) = Success
                  \<and> mset files' = mset files \<longrightarrow>
                frames (snd (handleFolderSelect lc parse files (u, db)))
                  = frames (snd (handleFolderSelect lc' parse' files' (u', db')))))"
proof -
  let ?R = "handleFolderSelect lc parse files (u, db)"
  let ?c = "pduFilesOf (naturalSort lc files)" and ?c' = "pduFilesOf (naturalSort lc' files')"
  let ?kv = "\<lambda>f. (parseInt (name f), fileBytes f)"
  note one = handleFolderSelect_Success [OF assms]
  from one have fr: "frames (snd ?R) = fold putFile ?c []" by (rule conjunct1)
  have perm: "mset ?c = mset (pduFilesOf files)" by (rule mset_pduFilesOf_naturalSort)
  then have sets: "set ?c = set (pduFilesOf files)" by (metis set_mset_mset)
  have c1: "map_of (frames (snd ?R)) = map_of (rev (map ?kv ?c))"
    by (simp only: fr map_of_fold_putFile) simp
  have c2: "contents f = Inr (fileBytes f) \<and> parseInt (name f) = roundDouble (decimalValue (name f))
      \<and> map_of (frames (snd ?R)) (parseInt (name f))
          = Some (fileBytes (last (filter (\<lambda>g. parseInt (name g) = parseInt (name f)) ?c)))"
    if f: "f \<in> set (pduFilesOf files)" for f
  proof -
    from f sets have in_c: "f \<in> set ?c" by simp
    with one have "contents f = Inr (fileBytes f)" by blast
    moreover from f have "parseInt (name f) = roundDouble (decimalValue (name f))"
      by (simp add: pduFilesOf_names parseInt_pdu)
    moreover from in_c have "filter (\<lambda>g. parseInt (name g) = parseInt (name f)) ?c \<noteq> []"
      by (auto simp: filter_empty_conv)
    then have "map_of (fold putFile ?c []) (parseInt (name f))
        = Some (fileBytes (last (filter (\<lambda>g. parseInt (name g) = parseInt (name f)) ?c)))"
      by (rule map_of_fold_putFile_last)
    ultimately show ?thesis by (simp only: fr)
  qed
  have c3: "(\<forall>f \<in> set (pduFilesOf files).
                map_of (frames (snd ?R)) (parseInt (name f)) = Some (fileBytes f))
             \<and> (status (uploadState (fst (handleFolderSelect lc' parse' files' (u', db')))) = Success
                  \<and> mset files' = mset files \<longrightarrow>
                frames (snd ?R) = frames (snd (handleFolderSelect lc' parse' files' (u', db'))))"
    if d: "distinct (map (\<lambda>f. parseInt (name f)) (pduFilesOf files))"
  proof (rule conjI)
    have same: "fold putFile (pduFilesOf files) [] = fold putFile ?c []"
      using perm [symmetric] d by (rule fold_putFile_permute)
    with fr have fr0: "frames (snd ?R) = fold putFile (pduFilesOf files) []" by simp
    then have m: "map_of (frames (snd ?R)) = map_of (map ?kv (pduFilesOf files))"
      using d by (simp add: map_of_fold_putFile_distinct)
    show "\<forall>f \<in> set (pduFilesOf files). map_of (frames (snd ?R)) (parseInt (name f)) = Some (fileBytes f)"
    proof
      fix f assume f: "f \<in> set (pduFilesOf files)"
      from d have "distinct (map fst (map ?kv (pduFilesOf files)))" by (simp add: comp_def)
      moreover from f have "(parseInt (name f), fileBytes f) \<in> set (map ?kv (pduFilesOf files))"
        by auto
      ultimately have "map_of (map ?kv (pduFilesOf files)) (parseInt (name f)) = Some (fileBytes f)"
        by (rule map_of_is_SomeI)
      then show "map_of (frames (snd ?R)) (parseInt (name f)) = Some (fileBytes f)"
        by (simp only: m)
    qed
    show "status (uploadState (fst (handleFolderSelect lc' parse' files' (u', db')))) = Success
                  \<and> mset files' = mset files \<longrightarrow>
                frames (snd ?R) = frames (snd (handleFolderSelect lc' parse' files' (u', db')))"
    proof
      assume a: "status (uploadState (fst (handleFolderSelect lc' parse' files' (u', db')))) = Success
          \<and> mset files' = mset files"
      then have perm': "mset ?c' = mset (pduFilesOf files)" by (simp add: pduFilesOf_def)
      have same': "fold putFile (pduFilesOf files) [] = fold putFile ?c' []"
        using perm' [symmetric] d by (rule fold_putFile_permute)
      from a have "frames (snd (handleFolderSelect lc' parse' files' (u', db'))) = fold putFile ?c' []"
        using handleFolderSelect_Success [of lc' parse' files' u' db'] by blast
      with same' fr0 show "frames (snd ?R) = frames (snd (handleFolderSelect lc' parse' files' (u', db')))"
        by simp
    qed
  qed
  from c1 c2 c3 show ?thesis by blast
qed


theorem handleFolderSelect_order_independent_witness:
  "status (uploadState (fst (handleFolderSelect codeUnitCompare sampleParse
      [frameFile ''10'' [1], frameFile ''2'' [2], frameFile ''1'' [3]] (initialUploader, emptyDatabase)))) = Success
   \<and> distinct (map (\<lambda>f. parseInt (name f))
        (pduFilesOf [frameFile ''10'' [1], frameFile ''2'' [2], frameFile ''1'' [3]]))
   \<and> status (uploadState (fst (handleFolderSelect codeUnitCompare sampleParse
      [frameFile ''1'' [3], frameFile ''10'' [1], frameFile ''2'' [2]]
      (initialUploader, \<lparr>frames = [(5, [9])], dbInstance = True, faults = [None]\<rparr>)))) = Success
   \<and> mset [frameFile ''1'' [3], frameFile ''10'' [1], frameFile ''2'' [2]]
      = mset [frameFile ''10'' [1], frameFile ''2'' [2], frameFile ''1'' [3]]
   \<and> frames (snd (handleFolderSelect codeUnitCompare sampleParse
        [frameFile ''10'' [1], frameFile ''2'' [2], frameFile ''1'' [3]] (initialUploader, emptyDatabase)))
      = frames (snd (handleFolderSelect codeUnitCompare sampleParse
        [frameFile ''1'' [3], frameFile ''10'' [1], frameFile ''2'' [2]]
        (initialUploader, \<lparr>frames = [(5, [9])], dbInstance = True, faults = [None]\<rparr>)))
   \<and> map_of (frames (snd (handleFolderSelect codeUnitCompare sampleParse
        [frameFile ''10'' [1], frameFile ''2'' [2], frameFile ''1'' [3]] (initialUploader, emptyDatabase)))) 10
      = Some [1]
   \<and> frames (snd (handleFolderSelect codeUnitCompare sampleParse
        [frameFile ''10'' [1], frameFile ''2'' [2], frameFile ''1'' [3]] (initialUploader, emptyDatabase)))
      = [(1, [3]), (2, [2]), (10, [1])]"
proof -
  let ?files = "[frameFile ''10'' [1], frameFile ''2'' [2], frameFile ''1'' [3]]"
  let ?files' = "[frameFile ''1'' [3], frameFile ''10'' [1], frameFile ''2'' [2]]"
  let ?db' = "\<lparr>frames = [(5, [9])], dbInstance = True, faults = [None]\<rparr>"
  have ok: "status (uploadState (fst (handleFolderSelect codeUnitCompare sampleParse ?files
      (initialUploader, emptyDatabase)))) = Success"
    and ok': "status (uploadState (fst (handleFolderSelect codeUnitCompare sampleParse ?files'
      (initialUploader, ?db')))) = Success"
    and run: "frames (snd (handleFolderSelect codeUnitCompare sampleParse ?files
      (initialUploader, emptyDatabase))) = [(1, [3]), (2, [2]), (10, [1])]"
    by (simp_all add: ingest_defs ingest_samples store_defs one_enat_def)
  have perm: "mset ?files' = mset ?files" by (simp add: add_mset_commute)
  have keys: "distinct (map (\<lambda>f. parseInt (name f)) (pduFilesOf ?files))"
    and cand: "frameFile ''10'' [1] \<in> set (pduFilesOf ?files)"
    and key: "parseInt (name (frameFile ''10'' [1])) = 10"
    and bytes: "fileBytes (frameFile ''10'' [1]) = [1]"
    by (simp_all add: ingest_defs ingest_samples fileBytes_def)
  note inst = handleFolderSelect_order_independent [OF ok, of codeUnitCompare sampleParse ?files'
      initialUploader ?db']
  from inst keys ok' perm
  have same: "frames (snd (handleFolderSelect codeUnitCompare sampleParse ?files (initialUploader, emptyDatabase)))
      = frames (snd (handleFolderSelect codeUnitCompare sampleParse ?files' (initialUploader, ?db')))"
    by blast
  from inst keys cand have "map_of (frames (snd (handleFolderSelect codeUnitCompare sampleParse ?files
      (initialUploader, emptyDatabase)))) (parseInt (name (frameFile ''10'' [1])))
      = Some (fileBytes (frameFile ''10'' [1]))"
    by blast
  then have look: "map_of (frames (snd (handleFolderSelect codeUnitCompare sampleParse ?files
      (initialUploader, emptyDatabase)))) 10 = Some [1]"
    by (simp only: key bytes)
  show ?thesis
    using ok keys ok' perm same look run by (intro conjI)
qed

lemma last_filter_nth:
  assumes "j < length xs" and "P (xs ! j)" and "\<forall>l. j < l \<and> l < length xs \<longrightarrow> \<not> P (xs ! l)"
  shows "last (filter P xs) = xs ! j"
proof -
  have "filter P (drop (Suc j) xs) = []"
  proof -
    have "\<not> P x" if "x \<in> set (drop (Suc j) xs)" for x
    proof -
      from that obtain l where "l < length (drop (Suc j) xs)" "x = drop (Suc j) xs ! l"
        by (auto simp: in_set_conv_nth)
      with assms(3) show ?thesis by simp
    qed
    then show ?thesis by (simp add: filter_empty_conv)
  qed
  moreover from assms(1) have "xs = take j xs @ xs ! j # drop (Suc j) xs"
    by (rule id_take_nth_drop)
  then have "filter P xs = filter P (take j xs) @ filter P (xs ! j # drop (Suc j) xs)"
    by (metis filter_append)
  ultimately show ?thesis using assms(2) by simp
qed





lemma storeFrame_ok:
  assumes "dbInstance db" and "\<forall>f \<in> set (take 1 (faults db)). f = None"
  shows "\<exists>db'. storeFrame i b db = (Inr (), db') \<and> frames db' = putRecord i b (frames db)
           \<and> dbInstance db' \<and> faults db' = drop 1 (faults db)"
  using assms
  by (auto simp: storeFrame_def openDatabase_def nextFault_def split: list.splits)

lemma storeFrame_fault:
  assumes "dbInstance db" and "faults db = Some m # rest"
  shows "\<exists>e db'. storeFrame i b db = (Inl e, db') \<and> frames db' = frames db"
  using assms
  by (auto simp: storeFrame_def openDatabase_def nextFault_def split: list.splits)

lemma clearFrames_ok:
  assumes "\<forall>f \<in> set (take ((if dbInstance db then 0 else 1) + 1) (faults db)). f = None"
  shows "\<exists>db'. clearFrames db = (Inr (), db') \<and> frames db' = [] \<and> dbInstance db'
           \<and> faults db' = drop ((if dbInstance db then 0 else 1) + 1) (faults db)"
proof (cases "faults db")
  case Nil
  then show ?thesis
    by (auto simp: clearFrames_def openDatabase_def nextFault_def)
next
  case (Cons f fs)
  show ?thesis
  proof (cases "dbInstance db")
    case True
    with Cons assms show ?thesis
      by (auto simp: clearFrames_def openDatabase_def nextFault_def)
  next
    case False
    with Cons assms have f: "f = None" by simp
    show ?thesis
    proof (cases fs)
      case Nil
      with Cons f False show ?thesis
        by (auto simp: clearFrames_def openDatabase_def nextFault_def)
    next
      case (Cons g gs)
      with \<open>faults db = f # fs\<close> assms False have "g = None" by simp
      with Cons \<open>faults db = f # fs\<close> f False show ?thesis
        by (auto simp: clearFrames_def openDatabase_def nextFault_def)
    qed
  qed
qed

lemma storeFiles_failure:
  assumes "dbInstance db" and "N < length fs"
    and "\<forall>j<N. \<exists>b. contents (fs ! j) = Inr b"
    and "\<forall>f \<in> set (take N (faults db)). f = None"
    and "(\<exists>e. contents (fs ! N) = Inl e) \<or> (\<exists>m rest. drop N (faults db) = Some m # rest)"
  shows "\<exists>e u' db'. storeFiles n i fs u db = (Inl e, u', db')
           \<and> frames db' = fold putFile (take N fs) (frames db)"
  using assms
proof (induction fs arbitrary: N i u db)
  case Nil
  then show ?case by simp
next
  case (Cons f fs)
  show ?case
  proof (cases N)
    case 0
    show ?thesis
    proof (cases "contents f")
      case (Inl e)
      with 0 show ?thesis by simp
    next
      case (Inr b)
      with 0 Cons.prems(5) obtain m rest where "faults db = Some m # rest" by auto
      from storeFrame_fault [OF Cons.prems(1) this, of "parseInt (name f)" b]
      obtain e db' where "storeFrame (parseInt (name f)) b db = (Inl e, db')" "frames db' = frames db"
        by blast
      with 0 Inr show ?thesis by simp
    qed
  next
    case (Suc M)
    from Cons.prems(3) Suc obtain b where b: "contents f = Inr b" by fastforce
    from Cons.prems(4) Suc have head: "\<forall>f \<in> set (take 1 (faults db)). f = None"
      by (cases "faults db") simp_all
    from storeFrame_ok [OF Cons.prems(1) head, of "parseInt (name f)" b]
    obtain db1 where db1: "storeFrame (parseInt (name f)) b db = (Inr (), db1)"
      "frames db1 = putRecord (parseInt (name f)) b (frames db)" "dbInstance db1"
      "faults db1 = drop 1 (faults db)" by blast
    from b db1(2) have put: "frames db1 = putFile f (frames db)"
      by (simp add: putFile_def fileBytes_def)
    from Cons.prems(2) Suc have len: "M < length fs" by simp
    from Cons.prems(3) Suc have reads: "\<forall>j<M. \<exists>b. contents (fs ! j) = Inr b" by fastforce
    from Cons.prems(4) Suc db1(4) have quiet: "\<forall>f \<in> set (take M (faults db1)). f = None"
      by (cases "faults db") simp_all
    from Cons.prems(5) Suc db1(4) have fails:
      "(\<exists>e. contents (fs ! M) = Inl e) \<or> (\<exists>m rest. drop M (faults db1) = Some m # rest)"
      by (cases "faults db") simp_all
    from Cons.IH [OF db1(3) len reads quiet fails]
    obtain e u' db' where "storeFiles n (i + 1) fs
        (u\<lparr>uploadState := (uploadState u)\<lparr>progress := i + 1,
            message := ''Loaded '' @ showNat (i + 1) @ ''/'' @ showNat n @ '': '' @ name f\<rparr>\<rparr>) db1
        = (Inl e, u', db')" "frames db' = fold putFile (take M fs) (frames db1)"
      by blast
    with b db1(1) put Suc show ?thesis by simp
  qed
qed

lemma naturalSort_Nil [simp]: "naturalSort lc [] = []"
  by (simp add: naturalSort_def sortBy_def)

lemma take_drop_quiet:
  assumes "\<forall>f \<in> set (take (a + n) xs). P f"
  shows "\<forall>f \<in> set (take n (drop a xs)). P f"
proof -
  have "take n (drop a xs) = drop a (take (a + n) xs)" by (simp add: drop_take)
  then have "set (take n (drop a xs)) \<subseteq> set (take (a + n) xs)"
    by (simp add: set_drop_subset)
  with assms show ?thesis by blast
qed

lemma take_less_quiet:
  assumes "\<forall>f \<in> set (take (a + n) xs). P f"
  shows "\<forall>f \<in> set (take a xs). P f"
proof -
  have "set (take a xs) \<subseteq> set (take (a + n) xs)" by (rule set_take_subset_set_take) simp
  with assms show ?thesis by blast
qed


text \<open>Two candidates whose names parse to the same number, followed by a file that cannot be
  read: the ingestion ends with status error, and the store holds one record, with the bytes of
  the second candidate. The bytes stored for candidate 0 are not retrievable any more.\<close>

theorem handleFolderSelect_failure_loses_frame:
  "pduFilesOf (naturalSort codeUnitCompare
      [frameFile ''7'' [1], frameFile ''007'' [2], \<lparr>name = ''8'', contents = Inl (JsError ''NotReadableError'')\<rparr>])
     = [frameFile ''7'' [1], frameFile ''007'' [2], \<lparr>name = ''8'', contents = Inl (JsError ''NotReadableError'')\<rparr>]
   \<and> handleFolderSelect codeUnitCompare sampleParse
      [frameFile ''7'' [1], frameFile ''007'' [2], \<lparr>name = ''8'', contents = Inl (JsError ''NotReadableError'')\<rparr>]
      (initialUploader, emptyDatabase)
     = (initialUploader\<lparr>uploadState := \<lparr>status = Error, message = ''Error: NotReadableError'',
          progress = 0, total = 0\<rparr>\<rparr>,
        \<lparr>frames = [(7, [2])], dbInstance = True, faults = []\<rparr>)
   \<and> fst (getFrame (parseInt ''7'') \<lparr>frames = [(7, [2])], dbInstance = True, faults = []\<rparr>) = Inr (Some [2])
   \<and> [1] \<notin> set (map snd (frames (snd (handleFolderSelect codeUnitCompare sampleParse
      [frameFile ''7'' [1], frameFile ''007'' [2], \<lparr>name = ''8'', contents = Inl (JsError ''NotReadableError'')\<rparr>]
      (initialUploader, emptyDatabase)))))"
  by (simp add: ingest_defs ingest_samples store_defs)

text \<open>C6 (no rollback; a frame is kept unless a later candidate has overwritten it). Let the open
  request (when the connection is not yet set), the clear request and the reads and stores of
  the candidates 0 to \<open>N - 1\<close> go through, and let the read or the store of candidate \<open>N\<close> fail.
  Then the ingestion ends with status error, and the store holds exactly what those \<open>N\<close> stores
  wrote into the cleared store, nothing is rolled back: the key of each of these candidates,
  the number parsed from its name, is retrievable and holds the bytes of the last of them whose
  name parses to that number. So the frame of each candidate 0 to \<open>N - 1\<close> that no later one of
  them has overwritten is retrievable, and all of them are when their names parse to pairwise
  distinct numbers.\<close>

theorem handleFolderSelect_failure_keeps_frames:
  assumes "cands = pduFilesOf (naturalSort lc files)"
    and "N < length cands"
    and "\<forall>j<N. \<exists>b. contents (cands ! j) = Inr b"
    and "k = (if dbInstance db then 0 else 1) + 1 + N"
    and "\<forall>f \<in> set (take k (faults db)). f = None"
    and "(\<exists>e. contents (cands ! N) = Inl e) \<or> (\<exists>m rest. drop k (faults db) = Some m # rest)"
  shows "status (uploadState (fst (handleFolderSelect lc parse files (u, db)))) = Error
       \<and> frames (snd (handleFolderSelect lc parse files (u, db))) = fold putFile (take N cands) []
       \<and> map_of (frames (snd (handleFolderSelect lc parse files (u, db))))
           = map_of (rev (map (\<lambda>f. (parseInt (name f), fileBytes f)) (take N cands)))
       \<and> (\<forall>j<N. contents (cands ! j) = Inr (fileBytes (cands ! j))
             \<and> map_of (frames (snd (handleFolderSelect lc parse files (u, db))))
                   (parseInt (name (cands ! j)))
                 = Some (fileBytes (last (filter (\<lambda>f. parseInt (name f) = parseInt (name (cands ! j)))
                                            (take N cands)))))
       \<and> (\<forall>j<N. (\<forall>l. j < l \<and> l < N \<longrightarrow> parseInt (name (cands ! l)) \<noteq> parseInt (name (cands ! j)))
             \<longrightarrow> map_of (frames (snd (handleFolderSelect lc parse files (u, db))))
                   (parseInt (name (cands ! j))) = Some (fileBytes (cands ! j)))
       \<and> (distinct (map (\<lambda>f. parseInt (name f)) (take N cands)) \<longrightarrow>
            (\<forall>j<N. map_of (frames (snd (handleFolderSelect lc parse files (u, db))))
                      (parseInt (name (cands ! j))) = Some (fileBytes (cands ! j))))"
proof -
  let ?a = "(if dbInstance db then 0 else 1) + 1 :: nat"
  let ?u2 = "(loadTiming parse (naturalSort lc files) u)\<lparr>uploadState := \<lparr>status = Loading,
                      message = ''Loading '' @ showNat (length cands) @ '' PDU files...'',
                      progress = 0, total = length cands\<rparr>\<rparr>"
  let ?R = "handleFolderSelect lc parse files (u, db)"
  from assms(1,2) have nonempty: "files \<noteq> []" by (auto simp: pduFilesOf_def)
  from assms(4) have k: "k = ?a + N" by simp
  from assms(5) k have "\<forall>f \<in> set (take ?a (faults db)). f = None"
    using take_less_quiet [of ?a N "faults db" "\<lambda>f. f = None"] by simp
  from clearFrames_ok [OF this] obtain db1 where
    db1: "clearFrames db = (Inr (), db1)" "frames db1 = []" "dbInstance db1"
      "faults db1 = drop ?a (faults db)" by blast
  from assms(5) k db1(4) have quiet: "\<forall>f \<in> set (take N (faults db1)). f = None"
    using take_drop_quiet [of ?a N "faults db" "\<lambda>f. f = None"] by simp
  from assms(6) k db1(4) have fails:
    "(\<exists>e. contents (cands ! N) = Inl e) \<or> (\<exists>m rest. drop N (faults db1) = Some m # rest)"
    by (simp add: add.commute)
  from storeFiles_failure [OF db1(3) assms(2,3) quiet fails, of "length cands" 0 ?u2]
  obtain e u' db' where loop: "storeFiles (length cands) 0 cands ?u2 db1 = (Inl e, u', db')"
    and kept: "frames db' = fold putFile (take N cands) (frames db1)" by blast
  from db1(1) loop have "storeAll cands ?u2 db = (Inl e, u', db')"
    by (simp add: storeAll_def)
  with nonempty assms(1) have result: "?R
      = (u'\<lparr>uploadState := \<lparr>status = Error, message = ''Error: '' @ errorMessage e,
                         progress = 0, total = 0\<rparr>\<rparr>, db')"
    by (simp add: handleFolderSelect_def Let_def)
  from result have c1: "status (uploadState (fst ?R)) = Error" by simp
  from kept db1(2) result have c2: "frames (snd ?R) = fold putFile (take N cands) []" by simp
  have c3: "map_of (frames (snd ?R)) = map_of (rev (map (\<lambda>f. (parseInt (name f), fileBytes f)) (take N cands)))"
    by (simp only: c2 map_of_fold_putFile) simp
  have mem: "cands ! j \<in> set (take N cands)" if "j < N" for j
    using that assms(2) by (metis in_set_conv_nth length_take min_less_iff_conj nth_take less_trans)
  have nth: "take N cands ! j = cands ! j" if "j < N" for j
    using that by simp
  have len: "length (take N cands) = N" using assms(2) by simp
  have c4: "\<forall>j<N. contents (cands ! j) = Inr (fileBytes (cands ! j))
      \<and> map_of (frames (snd ?R)) (parseInt (name (cands ! j)))
          = Some (fileBytes (last (filter (\<lambda>f. parseInt (name f) = parseInt (name (cands ! j))) (take N cands))))"
  proof (intro allI impI conjI)
    fix j assume j: "j < N"
    with assms(3) obtain b where "contents (cands ! j) = Inr b" by blast
    then show "contents (cands ! j) = Inr (fileBytes (cands ! j))" by (simp add: fileBytes_def)
    from mem [OF j] have "filter (\<lambda>f. parseInt (name f) = parseInt (name (cands ! j))) (take N cands) \<noteq> []"
      by (auto simp: filter_empty_conv)
    then have "map_of (fold putFile (take N cands) []) (parseInt (name (cands ! j)))
        = Some (fileBytes (last (filter (\<lambda>f. parseInt (name f) = parseInt (name (cands ! j))) (take N cands))))"
      by (rule map_of_fold_putFile_last)
    then show "map_of (frames (snd ?R)) (parseInt (name (cands ! j)))
        = Some (fileBytes (last (filter (\<lambda>f. parseInt (name f) = parseInt (name (cands ! j))) (take N cands))))"
      by (simp only: c2)
  qed
  have c5: "\<forall>j<N. (\<forall>l. j < l \<and> l < N \<longrightarrow> parseInt (name (cands ! l)) \<noteq> parseInt (name (cands ! j)))
      \<longrightarrow> map_of (frames (snd ?R)) (parseInt (name (cands ! j))) = Some (fileBytes (cands ! j))"
  proof (intro allI impI)
    fix j assume j: "j < N"
      and none: "\<forall>l. j < l \<and> l < N \<longrightarrow> parseInt (name (cands ! l)) \<noteq> parseInt (name (cands ! j))"
    have "last (filter (\<lambda>f. parseInt (name f) = parseInt (name (cands ! j))) (take N cands)) = take N cands ! j"
    proof (rule last_filter_nth)
      from j len show "j < length (take N cands)" by simp
      from j show "parseInt (name (take N cands ! j)) = parseInt (name (cands ! j))" by simp
      from none show "\<forall>l. j < l \<and> l < length (take N cands)
          \<longrightarrow> parseInt (name (take N cands ! l)) \<noteq> parseInt (name (cands ! j))"
        by (simp add: len)
    qed
    with c4 j show "map_of (frames (snd ?R)) (parseInt (name (cands ! j))) = Some (fileBytes (cands ! j))"
      by simp
  qed
  have c6: "distinct (map (\<lambda>f. parseInt (name f)) (take N cands)) \<longrightarrow>
      (\<forall>j<N. map_of (frames (snd ?R)) (parseInt (name (cands ! j))) = Some (fileBytes (cands ! j)))"
  proof (intro allI impI)
    fix j assume d: "distinct (map (\<lambda>f. parseInt (name f)) (take N cands))" and j: "j < N"
    from mem [OF j] have "(parseInt (name (cands ! j)), fileBytes (cands ! j))
        \<in> set (map (\<lambda>f. (parseInt (name f), fileBytes f)) (take N cands))" by auto
    moreover from d have "distinct (map fst (map (\<lambda>f. (parseInt (name f), fileBytes f)) (take N cands)))"
      by (simp add: comp_def)
    ultimately have "map_of (map (\<lambda>f. (parseInt (name f), fileBytes f)) (take N cands))
        (parseInt (name (cands ! j))) = Some (fileBytes (cands ! j))"
      by (intro map_of_is_SomeI)
    with d show "map_of (frames (snd ?R)) (parseInt (name (cands ! j))) = Some (fileBytes (cands ! j))"
      by (simp only: c2 map_of_fold_putFile_distinct)
  qed
  from c1 c2 c3 c4 c5 c6 show ?thesis by (intro conjI)
qed


theorem handleFolderSelect_failure_keeps_frames_witness:
  "pduFilesOf (naturalSort codeUnitCompare
      [frameFile ''1'' [2], frameFile ''0'' [1], \<lparr>name = ''2'', contents = Inl (JsError ''NotReadableError'')\<rparr>,
       frameFile ''3'' [4]])
     = [frameFile ''0'' [1], frameFile ''1'' [2], \<lparr>name = ''2'', contents = Inl (JsError ''NotReadableError'')\<rparr>,
        frameFile ''3'' [4]]
   \<and> handleFolderSelect codeUnitCompare sampleParse
      [frameFile ''1'' [2], frameFile ''0'' [1], \<lparr>name = ''2'', contents = Inl (JsError ''NotReadableError'')\<rparr>,
       frameFile ''3'' [4]]
      (initialUploader, \<lparr>frames = [(7, [9])], dbInstance = False, faults = []\<rparr>)
     = (initialUploader\<lparr>uploadState := \<lparr>status = Error, message = ''Error: NotReadableError'',
          progress = 0, total = 0\<rparr>\<rparr>,
        \<lparr>frames = [(0, [1]), (1, [2])], dbInstance = True, faults = []\<rparr>)
   \<and> map_of (frames (snd (handleFolderSelect codeUnitCompare sampleParse
        [frameFile ''1'' [2], frameFile ''0'' [1], \<lparr>name = ''2'', contents = Inl (JsError ''NotReadableError'')\<rparr>,
         frameFile ''3'' [4]]
        (initialUploader, \<lparr>frames = [(7, [9])], dbInstance = False, faults = []\<rparr>)))) 1 = Some [2]
   \<and> drop 3 [None, None, None, Some ''QuotaExceededError''] = [Some ''QuotaExceededError'']
   \<and> status (uploadState (fst (handleFolderSelect codeUnitCompare sampleParse
        [frameFile ''1'' [2], frameFile ''0'' [1], frameFile ''2'' [3]]
        (initialUploader, \<lparr>frames = [(7, [9])], dbInstance = False,
           faults = [None, None, None, Some ''QuotaExceededError'']\<rparr>)))) = Error
   \<and> frames (snd (handleFolderSelect codeUnitCompare sampleParse
        [frameFile ''1'' [2], frameFile ''0'' [1], frameFile ''2'' [3]]
        (initialUploader, \<lparr>frames = [(7, [9])], dbInstance = False,
           faults = [None, None, None, Some ''QuotaExceededError'']\<rparr>))) = [(0, [1])]
   \<and> map_of (frames (snd (handleFolderSelect codeUnitCompare sampleParse
        [frameFile ''9007199254740993'' [1], frameFile ''9007199254740992'' [2],
         \<lparr>name = ''9007199254740993'', contents = Inl (JsError ''NotReadableError'')\<rparr>]
        (initialUploader, emptyDatabase)))) 9007199254740992 = Some [2]"
proof -
  let ?bad = "\<lparr>name = ''2'', contents = Inl (JsError ''NotReadableError'')\<rparr>"
  let ?files = "[frameFile ''1'' [2], frameFile ''0'' [1], ?bad, frameFile ''3'' [4]]"
  let ?cands = "[frameFile ''0'' [1], frameFile ''1'' [2], ?bad, frameFile ''3'' [4]]"
  let ?db = "\<lparr>frames = [(7, [9])], dbInstance = False, faults = []\<rparr>"
  let ?files2 = "[frameFile ''1'' [2], frameFile ''0'' [1], frameFile ''2'' [3]]"
  let ?cands2 = "[frameFile ''0'' [1], frameFile ''1'' [2], frameFile ''2'' [3]]"
  let ?db2 = "\<lparr>frames = [(7, [9])], dbInstance = False, faults = [None, None, None, Some ''QuotaExceededError'']\<rparr>"
  let ?files3 = "[frameFile ''9007199254740993'' [1], frameFile ''9007199254740992'' [2],
         \<lparr>name = ''9007199254740993'', contents = Inl (JsError ''NotReadableError'')\<rparr>]"
  have cands: "?cands = pduFilesOf (naturalSort codeUnitCompare ?files)"
    and cands2: "?cands2 = pduFilesOf (naturalSort codeUnitCompare ?files2)"
    by (simp_all add: ingest_defs ingest_samples one_enat_def)
  have n: "2 < length ?cands" and reads: "\<forall>j<2. \<exists>b. contents (?cands ! j) = Inr b"
    and k: "(4::nat) = (if dbInstance ?db then 0 else 1) + 1 + 2"
    and quiet: "\<forall>f \<in> set (take 4 (faults ?db)). f = None"
    and fails: "(\<exists>e. contents (?cands ! 2) = Inl e) \<or> (\<exists>m rest. drop 4 (faults ?db) = Some m # rest)"
    by (simp_all add: frameFile_def less_Suc_eq numeral_2_eq_2)
  have n2: "1 < length ?cands2" and reads2: "\<forall>j<1. \<exists>b. contents (?cands2 ! j) = Inr b"
    and k2: "(3::nat) = (if dbInstance ?db2 then 0 else 1) + 1 + 1"
    and quiet2: "\<forall>f \<in> set (take 3 (faults ?db2)). f = None"
    and pending: "drop 3 [None, None, None, Some ''QuotaExceededError''] = [Some ''QuotaExceededError'']"
    by (simp_all add: frameFile_def numeral_3_eq_3)
  from pending have fails2:
    "(\<exists>e. contents (?cands2 ! 1) = Inl e) \<or> (\<exists>m rest. drop 3 (faults ?db2) = Some m # rest)"
    by simp
  note one = handleFolderSelect_failure_keeps_frames [OF cands n reads k quiet fails, of sampleParse initialUploader]
  note two = handleFolderSelect_failure_keeps_frames [OF cands2 n2 reads2 k2 quiet2 fails2, of sampleParse initialUploader]
  have run: "handleFolderSelect codeUnitCompare sampleParse ?files (initialUploader, ?db)
     = (initialUploader\<lparr>uploadState := \<lparr>status = Error, message = ''Error: NotReadableError'',
          progress = 0, total = 0\<rparr>\<rparr>,
        \<lparr>frames = [(0, [1]), (1, [2])], dbInstance = True, faults = []\<rparr>)"
    and run3: "map_of (frames (snd (handleFolderSelect codeUnitCompare sampleParse ?files3
        (initialUploader, emptyDatabase)))) 9007199254740992 = Some [2]"
    by (simp_all add: ingest_defs ingest_samples store_defs one_enat_def zero_enat_def)
  from two have err2: "status (uploadState (fst (handleFolderSelect codeUnitCompare sampleParse ?files2
      (initialUploader, ?db2)))) = Error" by (rule conjunct1)
  have written: "fold putFile (take 1 ?cands2) [] = [(0, [1])]"
    by (simp add: putFile_def frameFile_def fileBytes_def number_defs zero_enat_def)
  from two have "frames (snd (handleFolderSelect codeUnitCompare sampleParse ?files2 (initialUploader, ?db2)))
      = fold putFile (take 1 ?cands2) []" by blast
  then have kept2: "frames (snd (handleFolderSelect codeUnitCompare sampleParse ?files2 (initialUploader, ?db2)))
      = [(0, [1])]"
    by (simp only: written)
  have d: "distinct (map (\<lambda>f. parseInt (name f)) (take 2 ?cands))"
    and key: "parseInt (name (?cands ! 1)) = 1" and val: "fileBytes (?cands ! 1) = [2]"
    by (simp_all add: frameFile_def fileBytes_def number_defs one_enat_def zero_enat_def)
  from one d have "\<forall>j<2. map_of (frames (snd (handleFolderSelect codeUnitCompare sampleParse ?files
      (initialUploader, ?db)))) (parseInt (name (?cands ! j))) = Some (fileBytes (?cands ! j))"
    by blast
  moreover have "(1::nat) < 2" by simp
  ultimately have "map_of (frames (snd (handleFolderSelect codeUnitCompare sampleParse ?files
      (initialUploader, ?db)))) (parseInt (name (?cands ! 1))) = Some (fileBytes (?cands ! 1))"
    by blast
  then have look: "map_of (frames (snd (handleFolderSelect codeUnitCompare sampleParse ?files
      (initialUploader, ?db)))) 1 = Some [2]"
    by (simp only: key val)
  show ?thesis
    using cands [symmetric] run look pending err2 kept2 run3 by (intro conjI)
qed

section \<open>The playback loop\<close>

lemma timeouts_append [simp]: "timeouts k (a @ b) = timeouts k a @ timeouts k b"
  by (induction k a rule: timeouts.induct) auto

lemma timeouts_map_Timeout [simp]: "timeouts k (map (Timeout k) ds) = ds"
  by (induction ds) auto

lemma iterationFailed_Timeouts [simp]:
  "iterationFailed k (map (Timeout k) ds @ b) = (ds = [] \<and> iterationFailed k b)"
  by (cases ds) auto

lemma pacedFrames_Timeouts [simp]: "pacedFrames k (map (Timeout k) ds @ b) = pacedFrames k b"
  by (induction ds) auto

lemma timeouts_ofCall [simp]: "timeouts k (ofCall k evs) = timeouts k evs"
  by (induction k evs rule: timeouts.induct) (auto simp: ofCall_def)

lemma iterationFailed_ofCall [simp]: "iterationFailed k (ofCall k evs) = iterationFailed k evs"
  by (induction k evs rule: iterationFailed.induct) (auto simp: ofCall_def)

lemma pacedFrames_ofCall [simp]: "pacedFrames k (ofCall k evs) = pacedFrames k evs"
proof (induction k evs rule: pacedFrames.induct)
  case (2 k k' hasMore n es)
  have "iterationFailed k (filter (\<lambda>e. callOf e = Some k) es) = iterationFailed k es"
    using iterationFailed_ofCall [of k es] by (simp add: ofCall_def)
  with 2 show ?case by (auto simp: ofCall_def)
qed (auto simp: ofCall_def)

lemma ofCall_append [simp]: "ofCall k (a @ b) = ofCall k a @ ofCall k b"
  by (simp add: ofCall_def)

lemma ofCall_simps [simp]:
  "ofCall k [] = []"
  "ofCall k (StepCalled k # es) = StepCalled k # ofCall k es"
  "ofCall k (StepReturned k h n # es) = StepReturned k h n # ofCall k es"
  "ofCall k (Timeout k d # es) = Timeout k d # ofCall k es"
  "ofCall k (Caught k m # es) = Caught k m # ofCall k es"
  "ofCall k (StopRequested # es) = ofCall k es"
  "ofCall k (PutImageData b x y # es) = ofCall k es"
  "ofCall k (DrawImage i j # es) = ofCall k es"
  by (simp_all add: ofCall_def)

lemma emit_fields [simp]:
  "trace (emit ev s) = trace s @ [ev]"
  "timing' (emit ev s) = timing' s"
  "isPlaying (emit ev s) = isPlaying s"
  "currentFrame (emit ev s) = currentFrame s"
  "replay (emit ev s) = replay s"
  "ctx (emit ev s) = ctx s"
  "cursorCanvas (emit ev s) = cursorCanvas s"
  "canvasWidth (emit ev s) = canvasWidth s"
  "canvasHeight (emit ev s) = canvasHeight s"
  by (simp_all add: emit_def)

lemma handleUpdates_result:
  assumes "handleUpdates v w s = (res, s')"
  shows "trace s' = trace s \<and> timing' s' = timing' s \<and> isPlaying s' = isPlaying s
    \<and> currentFrame s' = currentFrame s \<and> ctx s' = ctx s"
  using assms
  by (auto simp: handleUpdates_def handlePointer_def handleResolution_def updateCursorCanvas_def
        Let_def split: option.splits if_splits sum.splits prod.splits)

lemma renderFrame_result:
  assumes "renderFrame w s = (res, s')"
  shows "timing' s' = timing' s \<and> isPlaying s' = isPlaying s \<and> currentFrame s' = currentFrame s
    \<and> ofCall k (trace s') = ofCall k (trace s)"
  using assms
  by (auto simp: renderFrame_def renderCursor_def split: option.splits if_splits sum.splits)

lemma playbackFailed_fields [simp]:
  "trace (playbackFailed v k e s) = trace s @ [Caught k (errorMessage e)]"
  "timing' (playbackFailed v k e s) = timing' s"
  "isPlaying (playbackFailed v k e s) = False"
  by (simp_all add: playbackFailed_def Let_def)

lemma replayComplete_fields [simp]:
  "trace (replayComplete v s) = trace s"
  "timing' (replayComplete v s) = timing' s"
  "isPlaying (replayComplete v s) = False"
  by (simp_all add: replayComplete_def)

lemma stopReplay_fields [simp]:
  "trace (stopReplay v s) = trace s @ [StopRequested]"
  "timing' (stopReplay v s) = timing' s"
  "isPlaying (stopReplay v s) = False"
  "replay (stopReplay v s) = replay s"
  by (simp_all add: stopReplay_def Let_def)

text \<open>The events of call \<open>k\<close> that one iteration logs, when what happens during its two waits
  leaves \<^verbatim>\<open>timing\<close> and the events of call \<open>k\<close> alone.\<close>

lemma loopBody_log:
  assumes "\<forall>x. timing' (duringStep t x) = timing' x \<and> ofCall k (trace (duringStep t x)) = ofCall k (trace x)"
    and "\<forall>x. timing' (duringDelay t x) = timing' x \<and> ofCall k (trace (duringDelay t x)) = ofCall k (trace x)"
  shows "timing' (outState (loopBody v w k t p s)) = timing' s \<and>
    (case loopBody v w k t p s of
       Exit s' \<Rightarrow>
         (\<exists>m. ofCall k (trace s') = ofCall k (trace s) @ [StepCalled k, Caught k m])
         \<or> (\<exists>h n m. ofCall k (trace s') = ofCall k (trace s) @ [StepCalled k, StepReturned k h n, Caught k m])
         \<or> (\<exists>n. ofCall k (trace s') = ofCall k (trace s) @ [StepCalled k, StepReturned k False n])
     | Next s' p' \<Rightarrow>
         (\<exists>n. ofCall k (trace s') = ofCall k (trace s) @ [StepCalled k, StepReturned k True n]
                 @ map (Timeout k) (specPacing (timing' s) p [n])
            \<and> p' = (if n < length (timing' s) then timeOffset (timing' s ! n) else p)))"
proof -
  note rely = assms [rule_format]
  let ?s0 = "emit (StepCalled k) s"
  show ?thesis
  proof (cases "replay s")
    case None
    then show ?thesis by (simp add: loopBody_def Let_def)
  next
    case (Some r)
    obtain res r' where st: "step w r = (res, r')" by (cases "step w r")
    let ?sb = "duringStep t (?s0\<lparr>replay := Some r'\<rparr>)"
    have sb: "timing' ?sb = timing' s" "ofCall k (trace ?sb) = ofCall k (trace s) @ [StepCalled k]"
      by (simp_all add: rely)
    show ?thesis
    proof (cases res)
      case (Inl e)
      with Some st sb show ?thesis by (simp add: loopBody_def Let_def)
    next
      case (Inr hasMore)
      show ?thesis
      proof (cases "replay ?sb")
        case None
        with Some st sb Inr show ?thesis by (simp add: loopBody_def Let_def)
      next
        case rb: (Some rb)
        let ?n = "replay_currentFrame w rb"
        let ?s1 = "(emit (StepReturned k hasMore ?n) ?sb)\<lparr>currentFrame := ?n\<rparr>"
        have s1: "timing' ?s1 = timing' s" "currentFrame ?s1 = ?n"
          "ofCall k (trace ?s1) = ofCall k (trace s) @ [StepCalled k, StepReturned k hasMore ?n]"
          using sb by simp_all
        obtain ru s2 where hu: "handleUpdates v w ?s1 = (ru, s2)" by (cases "handleUpdates v w ?s1")
        from handleUpdates_result [OF hu] s1
        have s2: "timing' s2 = timing' s" "currentFrame s2 = ?n"
          "ofCall k (trace s2) = ofCall k (trace s) @ [StepCalled k, StepReturned k hasMore ?n]"
          by simp_all
        show ?thesis
        proof (cases ru)
          case (Inl e)
          with Some st Inr rb hu s2 show ?thesis by (simp add: loopBody_def Let_def)
        next
          case ok: (Inr u)
          obtain rr s3 where rf: "renderFrame w s2 = (rr, s3)" by (cases "renderFrame w s2")
          from renderFrame_result [OF rf, of k] s2
          have s3: "timing' s3 = timing' s" "currentFrame s3 = ?n"
            "ofCall k (trace s3) = ofCall k (trace s) @ [StepCalled k, StepReturned k hasMore ?n]"
            by simp_all
          show ?thesis
          proof (cases rr)
            case (Inl e)
            with Some st Inr rb hu ok rf s3 show ?thesis by (simp add: loopBody_def Let_def)
          next
            case drawn: (Inr u')
            from Some st Inr rb hu ok rf drawn
            have body: "loopBody v w k t p s =
                (if \<not> hasMore then Exit (replayComplete v s3)
                 else (case timingAt (timing' s3) (currentFrame s3) of
                         Some currentTiming \<Rightarrow>
                           (let delay = timeOffset currentTiming - p;
                                s4 = s3\<lparr>currentTimeMs := timeOffset currentTiming\<rparr>
                            in if delay > 0
                               then Next (awaitTimeout k t delay s4) (timeOffset currentTiming)
                               else Next s4 (timeOffset currentTiming))
                       | None \<Rightarrow> Next (awaitTimeout k t 16 s3) p))"
              by (simp add: loopBody_def Let_def)
            show ?thesis
              by (simp only: body) (simp add: s3 Let_def awaitTimeout_def timingAt_def rely)
          qed
        qed
      qed
    qed
  qed
qed


lemma playLoop_log:
  assumes "playLoop v w k ticks p s = Some s'"
    and "\<forall>t \<in> set ticks. \<forall>x. timing' (duringStep t x) = timing' x
           \<and> ofCall k (trace (duringStep t x)) = ofCall k (trace x)"
    and "\<forall>t \<in> set ticks. \<forall>x. timing' (duringDelay t x) = timing' x
           \<and> ofCall k (trace (duringDelay t x)) = ofCall k (trace x)"
  shows "\<exists>evs. ofCall k (trace s') = ofCall k (trace s) @ evs
           \<and> (evs = [] \<or> (\<exists>rest. evs = StepCalled k # rest))
           \<and> timeouts k evs = specPacing (timing' s) p (pacedFrames k evs)"
  using assms
proof (induction ticks arbitrary: p s)
  case Nil
  then show ?case by (simp split: if_splits)
next
  case (Cons t ts)
  show ?case
  proof (cases "isPlaying s")
    case False
    with Cons.prems show ?thesis by simp
  next
    case True
    from Cons.prems(2,3) have
      r1: "\<forall>x. timing' (duringStep t x) = timing' x \<and> ofCall k (trace (duringStep t x)) = ofCall k (trace x)"
      and r2: "\<forall>x. timing' (duringDelay t x) = timing' x \<and> ofCall k (trace (duringDelay t x)) = ofCall k (trace x)"
      by simp_all
    note body = loopBody_log [OF r1 r2, of v w p s]
    show ?thesis
    proof (cases "loopBody v w k t p s")
      case (Exit s1)
      with True Cons.prems(1) have s1: "s1 = s'" by simp
      from body Exit s1 consider
        (a) m where "ofCall k (trace s') = ofCall k (trace s) @ [StepCalled k, Caught k m]"
        | (b) h n m where "ofCall k (trace s') = ofCall k (trace s) @ [StepCalled k, StepReturned k h n, Caught k m]"
        | (c) n where "ofCall k (trace s') = ofCall k (trace s) @ [StepCalled k, StepReturned k False n]"
        by auto
      then show ?thesis
      proof cases
        case a
        then show ?thesis by (intro exI [of _ "[StepCalled k, Caught k m]"]) simp
      next
        case b
        then show ?thesis by (intro exI [of _ "[StepCalled k, StepReturned k h n, Caught k m]"]) simp
      next
        case c
        then show ?thesis by (intro exI [of _ "[StepCalled k, StepReturned k False n]"]) simp
      qed
    next
      case (Next s1 p1)
      with True Cons.prems(1) have rest: "playLoop v w k ts p1 s1 = Some s'" by simp
      from body Next obtain n where
        n: "ofCall k (trace s1) = ofCall k (trace s) @ [StepCalled k, StepReturned k True n]
              @ map (Timeout k) (specPacing (timing' s) p [n])"
          "p1 = (if n < length (timing' s) then timeOffset (timing' s ! n) else p)"
        and tm: "timing' s1 = timing' s" by auto
      from Cons.prems(2,3) have
        "\<forall>t \<in> set ts. \<forall>x. timing' (duringStep t x) = timing' x
           \<and> ofCall k (trace (duringStep t x)) = ofCall k (trace x)"
        "\<forall>t \<in> set ts. \<forall>x. timing' (duringDelay t x) = timing' x
           \<and> ofCall k (trace (duringDelay t x)) = ofCall k (trace x)"
        by simp_all
      from Cons.IH [OF rest this] tm obtain evs where
        evs: "ofCall k (trace s') = ofCall k (trace s1) @ evs"
          "evs = [] \<or> (\<exists>rest. evs = StepCalled k # rest)"
          "timeouts k evs = specPacing (timing' s) p1 (pacedFrames k evs)" by auto
      let ?ds = "specPacing (timing' s) p [n]"
      let ?E = "[StepCalled k, StepReturned k True n] @ map (Timeout k) ?ds @ evs"
      from evs(2) have quiet: "\<not> iterationFailed k evs" by auto
      then have paced: "pacedFrames k ?E = n # pacedFrames k evs" by simp
      have waits: "timeouts k ?E = ?ds @ timeouts k evs" by simp
      have "specPacing (timing' s) p (n # pacedFrames k evs)
          = ?ds @ specPacing (timing' s) p1 (pacedFrames k evs)"
        by (simp add: n(2))
      then have "timeouts k ?E = specPacing (timing' s) p (pacedFrames k ?E)"
        by (simp only: paced waits evs(3))
      moreover from evs(1) n(1) have "ofCall k (trace s') = ofCall k (trace s) @ ?E" by simp
      ultimately show ?thesis by (intro exI [of _ ?E]) simp
    qed
  qed
qed

lemma specPacing_positive: "d \<in> set (specPacing tm p cs) \<Longrightarrow> 0 < d"
  by (induction cs arbitrary: p) (auto split: if_splits)

lemma specPacing_fallback: "specPacing [] p cs = replicate (length cs) 16"
  by (induction cs) simp_all

lemma sample_pacing:
  assumes "map timeOffset tm = [0, 100, 250]"
  shows "specPacing tm (specFirstOffset tm) [1, 2] = [100, 150]"
    and "specPacing tm (specFirstOffset tm) [0, 1, 2] = [100, 150]"
proof -
  from assms have len: "length tm = 3" by (metis length_map length_Cons list.size(3) numeral_3_eq_3)
  from assms have "map timeOffset tm ! 0 = 0" "map timeOffset tm ! 1 = 100" "map timeOffset tm ! 2 = 250"
    by simp_all
  with len have offs: "timeOffset (tm ! 0) = 0" "timeOffset (tm ! 1) = 100" "timeOffset (tm ! 2) = 250"
    by simp_all
  from len offs have first: "specFirstOffset tm = 0"
    by (cases tm) (simp_all add: specFirstOffset_def)
  from len offs first show "specPacing tm (specFirstOffset tm) [1, 2] = [100, 150]"
    and "specPacing tm (specFirstOffset tm) [0, 1, 2] = [100, 150]"
    by simp_all
qed

lemma firstOffset_spec: "firstOffset tm = specFirstOffset tm"
  by (cases tm) (simp_all add: firstOffset_def specFirstOffset_def timingAt_def)

text \<open>C1. Take a call of \<^verbatim>\<open>playFrames\<close> that returns, and let what happens during the waits of its
  loop leave \<^verbatim>\<open>timing\<close> alone (and log nothing under the number of this call). Then the waits of
  the loop are those of the pacing rule, applied to the frame indices that the engine reported
  after the steps that had more frames and whose result was handled and rendered without an
  exception: for each such frame the wait is the \<open>timeOffset\<close> of the entry at its index minus
  the offset consumed before (at first the first entry's, or 0 if there is none); it is 16 ms
  where the index has no entry, so with no entries every wait is 16 ms; and there is no wait at
  all for a delay that is not positive, so every wait is positive. For the offsets 0, 100, 250
  and the frames 1, 2 or 0, 1, 2 the waits are 100 and then 150. A step that reports no more
  frames leaves the loop before any delay is computed, and so does an exception.\<close>

theorem playFrames_pacing:
  assumes "playFrames v w k ticks s = Some s'"
    and "ofCall k (trace s) = []"
    and "\<forall>t \<in> set ticks. \<forall>x. timing' (duringStep t x) = timing' x
           \<and> ofCall k (trace (duringStep t x)) = ofCall k (trace x)"
    and "\<forall>t \<in> set ticks. \<forall>x. timing' (duringDelay t x) = timing' x
           \<and> ofCall k (trace (duringDelay t x)) = ofCall k (trace x)"
  shows "timeouts k (trace s')
           = specPacing (timing' s) (case timing' s of [] \<Rightarrow> 0 | e # _ \<Rightarrow> timeOffset e) (pacedFrames k (trace s'))
       \<and> (\<forall>d \<in> set (timeouts k (trace s')). 0 < d)
       \<and> (timing' s = [] \<longrightarrow> timeouts k (trace s') = replicate (length (pacedFrames k (trace s'))) 16)
       \<and> (map timeOffset (timing' s) = [0, 100, 250]
            \<and> (pacedFrames k (trace s') = [1, 2] \<or> pacedFrames k (trace s') = [0, 1, 2])
            \<longrightarrow> timeouts k (trace s') = [100, 150])"
proof -
  let ?first = "case timing' s of [] \<Rightarrow> 0 | e # _ \<Rightarrow> timeOffset e"
  have first: "?first = specFirstOffset (timing' s)" by (simp add: specFirstOffset_def)
  have main: "timeouts k (trace s') = specPacing (timing' s) (specFirstOffset (timing' s)) (pacedFrames k (trace s'))"
  proof (cases "replay s")
    case None
    with assms(1) have "s' = s" by (simp add: playFrames_def)
    moreover from assms(2) have "timeouts k (ofCall k (trace s)) = []" "pacedFrames k (ofCall k (trace s)) = []"
      by simp_all
    ultimately show ?thesis by simp
  next
    case (Some r)
    let ?s = "s\<lparr>currentTimeMs := firstOffset (timing' s)\<rparr>"
    from Some assms(1) have "playLoop v w k ticks (firstOffset (timing' s)) ?s = Some s'"
      by (simp add: playFrames_def Let_def)
    from playLoop_log [OF this assms(3,4)] assms(2) obtain evs where
      evs: "ofCall k (trace s') = evs"
        "timeouts k evs = specPacing (timing' s) (firstOffset (timing' s)) (pacedFrames k evs)"
      by auto
    have "timeouts k (trace s') = timeouts k (ofCall k (trace s'))"
      and "pacedFrames k (trace s') = pacedFrames k (ofCall k (trace s'))" by simp_all
    with evs show ?thesis by (simp only: firstOffset_spec)
  qed
  have c1: "timeouts k (trace s') = specPacing (timing' s) ?first (pacedFrames k (trace s'))"
    by (simp only: first main)
  have c2: "\<forall>d \<in> set (timeouts k (trace s')). 0 < d"
    by (simp only: main) (blast intro: specPacing_positive)
  have c3: "timing' s = [] \<longrightarrow> timeouts k (trace s') = replicate (length (pacedFrames k (trace s'))) 16"
    using main by (simp add: specPacing_fallback)
  have c4: "map timeOffset (timing' s) = [0, 100, 250]
            \<and> (pacedFrames k (trace s') = [1, 2] \<or> pacedFrames k (trace s') = [0, 1, 2])
            \<longrightarrow> timeouts k (trace s') = [100, 150]"
  proof
    assume a: "map timeOffset (timing' s) = [0, 100, 250]
        \<and> (pacedFrames k (trace s') = [1, 2] \<or> pacedFrames k (trace s') = [0, 1, 2])"
    then have "map timeOffset (timing' s) = [0, 100, 250]" by blast
    note sample = sample_pacing [OF this]
    from a have "pacedFrames k (trace s') = [1, 2] \<or> pacedFrames k (trace s') = [0, 1, 2]" by blast
    then show "timeouts k (trace s') = [100, 150]"
    proof
      assume "pacedFrames k (trace s') = [1, 2]"
      with main sample(1) show ?thesis by (simp only:)
    next
      assume "pacedFrames k (trace s') = [0, 1, 2]"
      with main sample(2) show ?thesis by (simp only:)
    qed
  qed
  from c1 c2 c3 c4 show ?thesis by (intro conjI)
qed


lemma newImageData_pixel: "newImageData [a, b, c, d] (Suc 0) (Suc 0) = Inr ()"
proof -
  have "length [a, b, c, d] = 4" by simp
  then show ?thesis by (simp only: newImageData_def) simp
qed

lemma newImageData_short: "newImageData [a, b, c] sw sh = Inl (JsError ''InvalidStateError'')"
proof -
  have "length [a, b, c] = 3" by simp
  then show ?thesis by (simp only: newImageData_def) simp
qed

lemmas player_defs = playFrames_def loopBody_def handleUpdates_def handleResolution_def handlePointer_def
  updateCursorCanvas_def renderFrame_def renderCursor_def newImageData_pixel newImageData_short
  stopReplay_def playbackFailed_def replayComplete_def awaitTimeout_def timingAt_def firstOffset_def
  emit_def Let_def

theorem playFrames_pacing_witness:
  "(\<exists>s'. playFrames ReplayPlayer (frameEngine 3) 1 [idle, idle, idle]
           (readyPlayer [entryAt 0 40, entryAt 1 100, entryAt 2 250] (Some 0)\<lparr>isPlaying := True\<rparr>) = Some s'
        \<and> pacedFrames 1 (trace s') = [1, 2] \<and> timeouts 1 (trace s') = [60, 150])
   \<and> (\<exists>s'. playFrames PlayerPage (frameEngine 3) 1 [idle, stopInDelay PlayerPage]
           (readyPlayer [entryAt 0 0, entryAt 1 100, entryAt 2 250] (Some 0)\<lparr>isPlaying := True\<rparr>) = Some s'
        \<and> pacedFrames 1 (trace s') = [1, 2] \<and> timeouts 1 (trace s') = [100, 150])
   \<and> (\<exists>s'. playFrames ReplayPlayer (shortFrameEngine 3) 1 [idle]
           (readyPlayer [entryAt 0 0, entryAt 1 100, entryAt 2 250] (Some 0)\<lparr>isPlaying := True\<rparr>) = Some s'
        \<and> trace s' = [StepCalled 1, StepReturned 1 True 1, Caught 1 ''InvalidStateError'']
        \<and> pacedFrames 1 (trace s') = [] \<and> timeouts 1 (trace s') = [])"
proof -
  let ?s = "readyPlayer [entryAt 0 40, entryAt 1 100, entryAt 2 250] (Some 0)\<lparr>isPlaying := True\<rparr>"
  let ?s2 = "readyPlayer [entryAt 0 0, entryAt 1 100, entryAt 2 250] (Some 0)\<lparr>isPlaying := True\<rparr>"
  have fresh: "ofCall 1 (trace ?s) = []" "ofCall 1 (trace ?s2) = []"
    by (simp_all add: sample_defs)
  have quiet: "\<forall>t \<in> set [idle, idle, idle]. \<forall>x :: nat player. timing' (duringStep t x) = timing' x
           \<and> ofCall 1 (trace (duringStep t x)) = ofCall 1 (trace x)"
    "\<forall>t \<in> set [idle, idle, idle]. \<forall>x :: nat player. timing' (duringDelay t x) = timing' x
           \<and> ofCall 1 (trace (duringDelay t x)) = ofCall 1 (trace x)"
    "\<forall>t \<in> set [idle, stopInDelay PlayerPage]. \<forall>x :: nat player. timing' (duringStep t x) = timing' x
           \<and> ofCall 1 (trace (duringStep t x)) = ofCall 1 (trace x)"
    "\<forall>t \<in> set [idle, stopInDelay PlayerPage]. \<forall>x :: nat player. timing' (duringDelay t x) = timing' x
           \<and> ofCall 1 (trace (duringDelay t x)) = ofCall 1 (trace x)"
    "\<forall>t \<in> set [idle]. \<forall>x :: nat player. timing' (duringStep t x) = timing' x
           \<and> ofCall 1 (trace (duringStep t x)) = ofCall 1 (trace x)"
    "\<forall>t \<in> set [idle]. \<forall>x :: nat player. timing' (duringDelay t x) = timing' x
           \<and> ofCall 1 (trace (duringDelay t x)) = ofCall 1 (trace x)"
    by (simp_all add: idle_def stopInDelay_def)
  have pace: "specPacing (timing' ?s) (case timing' ?s of [] \<Rightarrow> 0 | e # _ \<Rightarrow> timeOffset e) [1, 2] = [60, 150]"
    "specPacing (timing' ?s2) (case timing' ?s2 of [] \<Rightarrow> 0 | e # _ \<Rightarrow> timeOffset e) [1, 2] = [100, 150]"
    "specPacing (timing' ?s2) (case timing' ?s2 of [] \<Rightarrow> 0 | e # _ \<Rightarrow> timeOffset e) [] = []"
    by (simp_all add: sample_defs)
  obtain a where run: "playFrames ReplayPlayer (frameEngine 3) 1 [idle, idle, idle] ?s = Some a"
    and frames: "pacedFrames 1 (trace a) = [1, 2]"
    by (simp add: player_defs sample_defs)
  from playFrames_pacing [OF run fresh(1) quiet(1,2)]
  have "timeouts 1 (trace a)
      = specPacing (timing' ?s) (case timing' ?s of [] \<Rightarrow> 0 | e # _ \<Rightarrow> timeOffset e) (pacedFrames 1 (trace a))"
    by (rule conjunct1)
  then have waits: "timeouts 1 (trace a) = [60, 150]" by (simp only: frames pace)
  obtain b where run2: "playFrames PlayerPage (frameEngine 3) 1 [idle, stopInDelay PlayerPage] ?s2 = Some b"
    and frames2: "pacedFrames 1 (trace b) = [1, 2]"
    by (simp add: player_defs sample_defs)
  from playFrames_pacing [OF run2 fresh(2) quiet(3,4)]
  have "timeouts 1 (trace b)
      = specPacing (timing' ?s2) (case timing' ?s2 of [] \<Rightarrow> 0 | e # _ \<Rightarrow> timeOffset e) (pacedFrames 1 (trace b))"
    by (rule conjunct1)
  then have waits2: "timeouts 1 (trace b) = [100, 150]" by (simp only: frames2 pace)
  obtain c where run3: "playFrames ReplayPlayer (shortFrameEngine 3) 1 [idle] ?s2 = Some c"
    and log3: "trace c = [StepCalled 1, StepReturned 1 True 1, Caught 1 ''InvalidStateError'']"
    by (simp add: player_defs sample_defs)
  from log3 have frames3: "pacedFrames 1 (trace c) = []" by simp
  from playFrames_pacing [OF run3 fresh(2) quiet(5,6)]
  have "timeouts 1 (trace c)
      = specPacing (timing' ?s2) (case timing' ?s2 of [] \<Rightarrow> 0 | e # _ \<Rightarrow> timeOffset e) (pacedFrames 1 (trace c))"
    by (rule conjunct1)
  then have waits3: "timeouts 1 (trace c) = []" by (simp only: frames3 pace)
  from run frames waits run2 frames2 waits2 run3 log3 frames3 waits3 show ?thesis by blast
qed

lemma handleUpdates_trace:
  assumes "handleUpdates v w s = (res, s')"
  shows "trace s' = trace s \<and> isPlaying s' = isPlaying s"
  using handleUpdates_result [OF assms] by simp

lemma renderFrame_trace:
  assumes "renderFrame w s = (res, s')"
  shows "isPlaying s' = isPlaying s
    \<and> (\<exists>evs. trace s' = trace s @ evs \<and> StepCalled k \<notin> set evs \<and> StopRequested \<notin> set evs)"
  using assms
  by (auto simp: renderFrame_def renderCursor_def split: option.splits if_splits sum.splits)

text \<open>One iteration, when all that happens during its two waits is that the user may press
  stop: the iteration logs one step, and a stop request in it leaves \<^verbatim>\<open>isPlaying\<close> cleared.\<close>

lemma loopBody_trace:
  assumes "\<forall>x. duringStep t x = x \<or> duringStep t x = stopReplay v x"
    and "\<forall>x. duringDelay t x = x \<or> duringDelay t x = stopReplay v x"
  shows "(\<exists>evs. trace (outState (loopBody v w k t p s)) = trace s @ StepCalled k # evs
            \<and> StepCalled k \<notin> set evs
            \<and> (StopRequested \<in> set evs \<longrightarrow> \<not> isPlaying (outState (loopBody v w k t p s))))
       \<and> (case loopBody v w k t p s of Exit s' \<Rightarrow> \<not> isPlaying s' | Next s' p' \<Rightarrow> True)"
proof -
  define I where "I x \<longleftrightarrow> (\<exists>evs. trace x = trace s @ StepCalled k # evs \<and> StepCalled k \<notin> set evs
      \<and> (StopRequested \<in> set evs \<longrightarrow> \<not> isPlaying x))" for x :: "'a player"
  let ?s0 = "emit (StepCalled k) s"
  have start: "I (?s0\<lparr>replay := h\<rparr>)" for h by (simp add: I_def)
  have start0: "I ?s0" by (simp add: I_def)
  have stop: "I (stopReplay v x)" if "I x" for x
    using that by (auto simp: I_def)
  have step: "I (duringStep t x)" if "I x" for x
    using assms(1) [rule_format, of x] stop [OF that] that by auto
  have delay: "I (duringDelay t x)" if "I x" for x
    using assms(2) [rule_format, of x] stop [OF that] that by auto
  have failed: "I (playbackFailed v k e x)" if "I x" for x e
    using that by (auto simp: I_def)
  have complete: "I (replayComplete v x)" if "I x" for x
    using that by (auto simp: I_def)
  have returned: "I ((emit (StepReturned k h n) x)\<lparr>currentFrame := c\<rparr>)" if "I x" for x h n c
    using that by (auto simp: I_def)
  have updated: "I x'" if "I x" "handleUpdates v w x = (res, x')" for x x' res
    using that(1) handleUpdates_trace [OF that(2)] by (auto simp: I_def)
  have rendered: "I x'" if "I x" "renderFrame w x = (res, x')" for x x' res
    using that(1) renderFrame_trace [OF that(2), of k] by (auto simp: I_def)
  have timed: "I (x\<lparr>currentTimeMs := c\<rparr>)" if "I x" for x c
    using that by (auto simp: I_def)
  have waited: "I (awaitTimeout k t d x)" if "I x" for x d
  proof -
    from that have "I (emit (Timeout k d) x)" by (auto simp: I_def)
    then show ?thesis unfolding awaitTimeout_def by (rule delay)
  qed
  have goal: "I (outState (loopBody v w k t p s))
      \<and> (case loopBody v w k t p s of Exit s' \<Rightarrow> \<not> isPlaying s' | Next s' p' \<Rightarrow> True)"
  proof (cases "replay s")
    case None
    with failed [OF start0] show ?thesis by (simp add: loopBody_def Let_def)
  next
    case (Some r)
    obtain res r' where st: "step w r = (res, r')" by (cases "step w r")
    let ?sb = "duringStep t (?s0\<lparr>replay := Some r'\<rparr>)"
    have sb: "I ?sb" by (rule step) (rule start)
    show ?thesis
    proof (cases res)
      case (Inl e)
      with Some st failed [OF sb] show ?thesis by (simp add: loopBody_def Let_def)
    next
      case (Inr hasMore)
      show ?thesis
      proof (cases "replay ?sb")
        case None
        with Some st Inr failed [OF sb] show ?thesis by (simp add: loopBody_def Let_def)
      next
        case rb: (Some rb)
        let ?n = "replay_currentFrame w rb"
        let ?s1 = "(emit (StepReturned k hasMore ?n) ?sb)\<lparr>currentFrame := ?n\<rparr>"
        have s1: "I ?s1" by (rule returned) (rule sb)
        obtain ru s2 where hu: "handleUpdates v w ?s1 = (ru, s2)" by (cases "handleUpdates v w ?s1")
        from updated [OF s1 hu] have s2: "I s2" .
        show ?thesis
        proof (cases ru)
          case (Inl e)
          with Some st Inr rb hu failed [OF s2] show ?thesis by (simp add: loopBody_def Let_def)
        next
          case ok: (Inr u)
          obtain rr s3 where rf: "renderFrame w s2 = (rr, s3)" by (cases "renderFrame w s2")
          from rendered [OF s2 rf] have s3: "I s3" .
          show ?thesis
          proof (cases rr)
            case (Inl e)
            with Some st Inr rb hu ok rf failed [OF s3] show ?thesis by (simp add: loopBody_def Let_def)
          next
            case drawn: (Inr u')
            from Some st Inr rb hu ok rf drawn
            have body: "loopBody v w k t p s =
                (if \<not> hasMore then Exit (replayComplete v s3)
                 else (case timingAt (timing' s3) (currentFrame s3) of
                         Some currentTiming \<Rightarrow>
                           (let delay = timeOffset currentTiming - p;
                                s4 = s3\<lparr>currentTimeMs := timeOffset currentTiming\<rparr>
                            in if delay > 0
                               then Next (awaitTimeout k t delay s4) (timeOffset currentTiming)
                               else Next s4 (timeOffset currentTiming))
                       | None \<Rightarrow> Next (awaitTimeout k t 16 s3) p))"
              by (simp add: loopBody_def Let_def)
            show ?thesis
              using complete [OF s3] waited [OF s3] waited [OF timed [OF s3]] timed [OF s3]
              by (simp only: body) (simp add: Let_def split: option.splits)
          qed
        qed
      qed
    qed
  qed
  then show ?thesis by (simp add: I_def)
qed


lemma noStepAfterStop_append:
  "noStepAfterStop k a \<Longrightarrow> noStepAfterStop k b \<Longrightarrow> (StopRequested \<in> set a \<Longrightarrow> StepCalled k \<notin> set b)
     \<Longrightarrow> noStepAfterStop k (a @ b)"
  by (induction a) auto

lemma noStepAfterStop_no_step: "StepCalled k \<notin> set evs \<Longrightarrow> noStepAfterStop k evs"
  by (induction evs) auto

lemma playLoop_stopped [simp]: "\<not> isPlaying s \<Longrightarrow> playLoop v w k ticks p s = Some s"
  by (cases ticks) simp_all

lemma playLoop_noStepAfterStop:
  assumes "playLoop v w k ticks p s = Some s'"
    and "\<forall>t \<in> set ticks. \<forall>x. duringStep t x = x \<or> duringStep t x = stopReplay v x"
    and "\<forall>t \<in> set ticks. \<forall>x. duringDelay t x = x \<or> duringDelay t x = stopReplay v x"
  shows "\<exists>evs. trace s' = trace s @ evs \<and> noStepAfterStop k evs \<and> (\<not> isPlaying s \<longrightarrow> evs = [])
        \<and> \<not> isPlaying s'"
  using assms
proof (induction ticks arbitrary: p s)
  case Nil
  then show ?case by (simp split: if_splits)
next
  case (Cons t ts)
  show ?case
  proof (cases "isPlaying s")
    case False
    with Cons.prems show ?thesis by simp
  next
    case True
    from Cons.prems(2,3) have
      r1: "\<forall>x. duringStep t x = x \<or> duringStep t x = stopReplay v x"
      and r2: "\<forall>x. duringDelay t x = x \<or> duringDelay t x = stopReplay v x"
      by simp_all
    from loopBody_trace [OF r1 r2, of w k p s] obtain evs where
      evs: "trace (outState (loopBody v w k t p s)) = trace s @ StepCalled k # evs"
        "StepCalled k \<notin> set evs"
        "StopRequested \<in> set evs \<longrightarrow> \<not> isPlaying (outState (loopBody v w k t p s))"
      and ex: "case loopBody v w k t p s of Exit s' \<Rightarrow> \<not> isPlaying s' | Next s' p' \<Rightarrow> True"
      by blast
    from evs(2) have first: "noStepAfterStop k (StepCalled k # evs)"
      by (simp add: noStepAfterStop_no_step)
    show ?thesis
    proof (cases "loopBody v w k t p s")
      case (Exit s1)
      with True Cons.prems(1) evs ex first show ?thesis by auto
    next
      case (Next s1 p1)
      with True Cons.prems(1) have rest: "playLoop v w k ts p1 s1 = Some s'" by simp
      from Cons.prems(2,3) have
        "\<forall>t \<in> set ts. \<forall>x. duringStep t x = x \<or> duringStep t x = stopReplay v x"
        "\<forall>t \<in> set ts. \<forall>x. duringDelay t x = x \<or> duringDelay t x = stopReplay v x"
        by simp_all
      from Cons.IH [OF rest this] obtain evs2 where
        evs2: "trace s' = trace s1 @ evs2" "noStepAfterStop k evs2" "\<not> isPlaying s1 \<longrightarrow> evs2 = []"
          "\<not> isPlaying s'" by blast
      from evs Next have s1: "trace s1 = trace s @ StepCalled k # evs"
        "StopRequested \<in> set evs \<longrightarrow> \<not> isPlaying s1"
        by simp_all
      have "noStepAfterStop k ((StepCalled k # evs) @ evs2)"
        using first evs2(2,3) s1(2) by (intro noStepAfterStop_append) auto
      with evs2 s1 True show ?thesis by (intro exI [of _ "(StepCalled k # evs) @ evs2"]) simp
    qed
  qed
qed

lemma handleUpdates_isPlaying:
  "isPlaying (snd (handleUpdates v w s)) = isPlaying s"
  using handleUpdates_result [of v w s "fst (handleUpdates v w s)" "snd (handleUpdates v w s)"] by simp

lemma renderFrame_isPlaying:
  "isPlaying (snd (renderFrame w s)) = isPlaying s"
  using renderFrame_result [of w s "fst (renderFrame w s)" "snd (renderFrame w s)"] by simp

text \<open>When the flag is cleared while the step is pending and nothing sets it during the timer
  wait, it is cleared at the end of the iteration.\<close>

lemma loopBody_stopped_in_step:
  assumes "\<forall>x. \<not> isPlaying (duringStep t x)"
    and "\<forall>x. \<not> isPlaying x \<longrightarrow> \<not> isPlaying (duringDelay t x)"
  shows "\<not> isPlaying (outState (loopBody v w k t p s))"
proof (cases "replay s")
  case None
  then show ?thesis by (simp add: loopBody_def Let_def)
next
  case (Some r)
  obtain res r' where st: "step w r = (res, r')" by (cases "step w r")
  let ?sb = "duringStep t ((emit (StepCalled k) s)\<lparr>replay := Some r'\<rparr>)"
  from assms(1) have sb: "\<not> isPlaying ?sb" by blast
  show ?thesis
  proof (cases res)
    case (Inl e)
    with Some st show ?thesis by (simp add: loopBody_def Let_def)
  next
    case (Inr hasMore)
    show ?thesis
    proof (cases "replay ?sb")
      case None
      with Some st Inr show ?thesis by (simp add: loopBody_def Let_def)
    next
      case rb: (Some rb)
      let ?n = "replay_currentFrame w rb"
      let ?s1 = "(emit (StepReturned k hasMore ?n) ?sb)\<lparr>currentFrame := ?n\<rparr>"
      from sb have s1: "\<not> isPlaying ?s1" by simp
      obtain ru s2 where hu: "handleUpdates v w ?s1 = (ru, s2)" by (cases "handleUpdates v w ?s1")
      from handleUpdates_result [OF hu] s1 have s2: "\<not> isPlaying s2" by simp
      show ?thesis
      proof (cases ru)
        case (Inl e)
        with Some st Inr rb hu show ?thesis by (simp add: loopBody_def Let_def)
      next
        case ok: (Inr u)
        obtain rr s3 where rf: "renderFrame w s2 = (rr, s3)" by (cases "renderFrame w s2")
        from renderFrame_result [OF rf, of k] s2 have s3: "\<not> isPlaying s3" by simp
        show ?thesis
        proof (cases rr)
          case (Inl e)
          with Some st Inr rb hu ok rf show ?thesis by (simp add: loopBody_def Let_def)
        next
          case drawn: (Inr u')
          from Some st Inr rb hu ok rf drawn
          have body: "loopBody v w k t p s =
              (if \<not> hasMore then Exit (replayComplete v s3)
               else (case timingAt (timing' s3) (currentFrame s3) of
                       Some currentTiming \<Rightarrow>
                         (let delay = timeOffset currentTiming - p;
                              s4 = s3\<lparr>currentTimeMs := timeOffset currentTiming\<rparr>
                          in if delay > 0
                             then Next (awaitTimeout k t delay s4) (timeOffset currentTiming)
                             else Next s4 (timeOffset currentTiming))
                     | None \<Rightarrow> Next (awaitTimeout k t 16 s3) p))"
            by (simp add: loopBody_def Let_def)
          have waited: "\<not> isPlaying (awaitTimeout k t d x)" if "\<not> isPlaying x" for x :: "'a player" and d
            using that assms(2) by (simp add: awaitTimeout_def)
          from s3 have s4: "\<not> isPlaying (s3\<lparr>currentTimeMs := c\<rparr>)" for c by simp
          show ?thesis
            using s3 waited [OF s3] waited [OF s4] s4
            by (simp only: body) (simp add: Let_def split: option.splits)
        qed
      qed
    qed
  qed
qed

lemma playLoop_stopped_in_step:
  assumes "\<forall>x. \<not> isPlaying (duringStep t x)"
    and "\<forall>x. \<not> isPlaying x \<longrightarrow> \<not> isPlaying (duringDelay t x)"
  shows "playLoop v w k (t # ts) p s = playLoop v w k [t] p s
       \<and> (\<exists>s1. playLoop v w k [t] p s = Some s1 \<and> \<not> isPlaying s1)"
  using loopBody_stopped_in_step [OF assms, of v w k p s]
  by (cases "loopBody v w k t p s") simp_all


lemma handlePointer_ok:
  assumes "replay x = Some r1"
    and "pointerBitmapChanged w r1 \<and> getPointerBitmap w r1 \<noteq> [] \<and> pointerWidth w r1 \<noteq> 0
           \<and> pointerHeight w r1 \<noteq> 0
         \<longrightarrow> newImageData (getPointerBitmap w r1) (pointerWidth w r1) (pointerHeight w r1) = Inr ()"
  shows "handlePointer w x =
    (Inr (), x\<lparr>cursorCanvas := (if pointerBitmapChanged w r1
                   then (if getPointerBitmap w r1 = [] \<or> pointerWidth w r1 = 0 \<or> pointerHeight w r1 = 0
                         then None
                         else Some (pointerWidth w r1, pointerHeight w r1, getPointerBitmap w r1))
                   else cursorCanvas x),
               replay := Some (if pointerBitmapChanged w r1 then clearPointerBitmapChanged w r1 else r1)\<rparr>)"
  using assms by (auto simp: handlePointer_def updateCursorCanvas_def Let_def)

lemma renderFrame_ok:
  assumes "replay x = Some r2" and "ctx x"
    and "newImageData (getFrameBuffer w r2) (width w r2) (height w r2) = Inr ()"
  shows "renderFrame w x =
    (Inr (), x\<lparr>trace := trace x @ [PutImageData (getFrameBuffer w r2) (width w r2) (height w r2)]
               @ (case cursorCanvas x of None \<Rightarrow> []
                  | Some c \<Rightarrow> [DrawImage (mouseX w r2 - pointerHotspotX w r2)
                                  (mouseY w r2 - pointerHotspotY w r2)])\<rparr>)"
  using assms by (auto simp: renderFrame_def renderCursor_def emit_def split: option.splits)

text \<open>The iteration during whose step the user presses stop, written out: the result of the
  step is taken, the resolution and pointer updates are handled, the frame is rendered and the
  pacing delay is awaited.\<close>

lemma loopBody_stop_in_step:
  assumes live: "replay s = Some r" and st: "step w r = (Inr hasMore, r')"
    and stop: "duringStep t ((emit (StepCalled k) s)\<lparr>replay := Some r'\<rparr>)
                 = stopReplay v ((emit (StepCalled k) s)\<lparr>replay := Some r'\<rparr>)"
    and still: "\<forall>x. duringDelay t x = x"
    and canvas: "ctx s"
    and r1: "r1 = (if resolutionChanged w r' then clearResolutionChanged w r' else r')"
    and r2: "r2 = (if pointerBitmapChanged w r1 then clearPointerBitmapChanged w r1 else r1)"
    and cursor: "cursor = (if pointerBitmapChanged w r1
                   then (if getPointerBitmap w r1 = [] \<or> pointerWidth w r1 = 0 \<or> pointerHeight w r1 = 0
                         then None
                         else Some (pointerWidth w r1, pointerHeight w r1, getPointerBitmap w r1))
                   else cursorCanvas s)"
    and fits: "pointerBitmapChanged w r1 \<and> getPointerBitmap w r1 \<noteq> [] \<and> pointerWidth w r1 \<noteq> 0
                 \<and> pointerHeight w r1 \<noteq> 0
               \<longrightarrow> newImageData (getPointerBitmap w r1) (pointerWidth w r1) (pointerHeight w r1) = Inr ()"
    and frame: "newImageData (getFrameBuffer w r2) (width w r2) (height w r2) = Inr ()"
  shows "trace (outState (loopBody v w k t p s))
           = trace s @ [StepCalled k, StopRequested, StepReturned k hasMore (replay_currentFrame w r'),
                        PutImageData (getFrameBuffer w r2) (width w r2) (height w r2)]
               @ (case cursor of None \<Rightarrow> []
                  | Some c \<Rightarrow> [DrawImage (mouseX w r2 - pointerHotspotX w r2) (mouseY w r2 - pointerHotspotY w r2)])
               @ (if hasMore then map (Timeout k) (specPacing (timing' s) p [replay_currentFrame w r']) else [])"
    and "currentFrame (outState (loopBody v w k t p s)) = replay_currentFrame w r'"
    and "replay (outState (loopBody v w k t p s)) = Some r2"
    and "cursorCanvas (outState (loopBody v w k t p s)) = cursor"
    and "resolutionChanged w r' \<longrightarrow> canvasWidth (outState (loopBody v w k t p s)) = desktopWidth w r'
           \<and> canvasHeight (outState (loopBody v w k t p s)) = desktopHeight w r'"
    and "\<not> isPlaying (outState (loopBody v w k t p s))"
proof -
  let ?sa = "(emit (StepCalled k) s)\<lparr>replay := Some r'\<rparr>"
  let ?sb = "stopReplay v ?sa"
  let ?n = "replay_currentFrame w r'"
  let ?s1 = "(emit (StepReturned k hasMore ?n) ?sb)\<lparr>currentFrame := ?n\<rparr>"
  let ?sr = "handleResolution v w ?s1"
  have s1: "replay ?s1 = Some r'" "ctx ?s1" "cursorCanvas ?s1 = cursorCanvas s"
    "trace ?s1 = trace s @ [StepCalled k, StopRequested, StepReturned k hasMore ?n]"
    "timing' ?s1 = timing' s" "currentFrame ?s1 = ?n" "\<not> isPlaying ?s1"
    using canvas by (simp_all add: stopReplay_def emit_def Let_def)
  have sr: "replay ?sr = Some r1" "ctx ?sr" "cursorCanvas ?sr = cursorCanvas s"
    "trace ?sr = trace ?s1" "timing' ?sr = timing' s" "currentFrame ?sr = ?n" "\<not> isPlaying ?sr"
    "resolutionChanged w r' \<longrightarrow> canvasWidth ?sr = desktopWidth w r' \<and> canvasHeight ?sr = desktopHeight w r'"
    using s1 by (auto simp: handleResolution_def r1 Let_def)
  define s2 where "s2 = ?sr\<lparr>cursorCanvas := cursor, replay := Some r2\<rparr>"
  from handlePointer_ok [OF sr(1) fits] sr(3)
  have hu: "handleUpdates v w ?s1 = (Inr (), s2)"
    by (simp only: handleUpdates_def s2_def cursor r2)
  have s2: "replay s2 = Some r2" "ctx s2" "cursorCanvas s2 = cursor" "trace s2 = trace ?s1"
      "timing' s2 = timing' s" "currentFrame s2 = ?n" "\<not> isPlaying s2"
      "resolutionChanged w r' \<longrightarrow> canvasWidth s2 = desktopWidth w r' \<and> canvasHeight s2 = desktopHeight w r'"
    using sr by (simp_all add: s2_def)
  define s3 where "s3 = s2\<lparr>trace := trace s2 @ [PutImageData (getFrameBuffer w r2) (width w r2) (height w r2)]
               @ (case cursorCanvas s2 of None \<Rightarrow> []
                  | Some c \<Rightarrow> [DrawImage (mouseX w r2 - pointerHotspotX w r2)
                                  (mouseY w r2 - pointerHotspotY w r2)])\<rparr>"
  from renderFrame_ok [OF s2(1,2) frame]
  have rf: "renderFrame w s2 = (Inr (), s3)" by (simp only: s3_def)
  have s3: "replay s3 = Some r2" "cursorCanvas s3 = cursor"
      "trace s3 = trace ?s1 @ [PutImageData (getFrameBuffer w r2) (width w r2) (height w r2)]
          @ (case cursor of None \<Rightarrow> []
             | Some c \<Rightarrow> [DrawImage (mouseX w r2 - pointerHotspotX w r2) (mouseY w r2 - pointerHotspotY w r2)])"
      "timing' s3 = timing' s" "currentFrame s3 = ?n" "\<not> isPlaying s3"
      "resolutionChanged w r' \<longrightarrow> canvasWidth s3 = desktopWidth w r' \<and> canvasHeight s3 = desktopHeight w r'"
    using s2 by (simp_all add: s3_def)
  from live st stop s1(1) hu rf
  have body: "loopBody v w k t p s =
      (if \<not> hasMore then Exit (replayComplete v s3)
       else (case timingAt (timing' s3) (currentFrame s3) of
               Some currentTiming \<Rightarrow>
                 (let delay = timeOffset currentTiming - p;
                      s4 = s3\<lparr>currentTimeMs := timeOffset currentTiming\<rparr>
                  in if delay > 0
                     then Next (awaitTimeout k t delay s4) (timeOffset currentTiming)
                     else Next s4 (timeOffset currentTiming))
             | None \<Rightarrow> Next (awaitTimeout k t 16 s3) p))"
    by (simp add: loopBody_def Let_def)
  note fin = s3 s1(4) still [rule_format] awaitTimeout_def timingAt_def replayComplete_def emit_def Let_def
  show "trace (outState (loopBody v w k t p s))
           = trace s @ [StepCalled k, StopRequested, StepReturned k hasMore (replay_currentFrame w r'),
                        PutImageData (getFrameBuffer w r2) (width w r2) (height w r2)]
               @ (case cursor of None \<Rightarrow> []
                  | Some c \<Rightarrow> [DrawImage (mouseX w r2 - pointerHotspotX w r2) (mouseY w r2 - pointerHotspotY w r2)])
               @ (if hasMore then map (Timeout k) (specPacing (timing' s) p [replay_currentFrame w r']) else [])"
    by (simp only: body) (simp add: fin)
  show "currentFrame (outState (loopBody v w k t p s)) = replay_currentFrame w r'"
    by (simp only: body) (simp add: fin)
  show "replay (outState (loopBody v w k t p s)) = Some r2"
    by (simp only: body) (simp add: fin)
  show "cursorCanvas (outState (loopBody v w k t p s)) = cursor"
    by (simp only: body) (simp add: fin)
  show "resolutionChanged w r' \<longrightarrow> canvasWidth (outState (loopBody v w k t p s)) = desktopWidth w r'
           \<and> canvasHeight (outState (loopBody v w k t p s)) = desktopHeight w r'"
    by (simp only: body) (simp add: fin)
  show "\<not> isPlaying (outState (loopBody v w k t p s))"
    by (simp only: body) (simp add: fin)
qed


lemma eventsSince_append: "trace s' = trace s @ evs \<Longrightarrow> eventsSince s s' = evs"
  by (simp add: eventsSince_def)

text \<open>In the player page, playback is stopped and started again while the loop of call 1 waits
  on its timer (the user presses Space twice). The new call of \<^verbatim>\<open>playFrames\<close>, call 2, takes a
  step and waits. When its timer has run out, the loop of call 1 finds \<^verbatim>\<open>isPlaying\<close> set: it
  goes through two more iterations after the stop request, and leaves only because the engine
  has no more frames.\<close>

theorem playFrames_restart_keeps_loop:
  "playFrames PlayerPage (frameEngine 4) 1 [restartInDelay (frameEngine 4), idle, idle]
      (readyPlayer [entryAt 0 0, entryAt 1 5000, entryAt 2 5010, entryAt 3 5020, entryAt 4 5030] (Some 0)
         \<lparr>isPlaying := True\<rparr>) \<noteq> None
   \<and> trace (the (playFrames PlayerPage (frameEngine 4) 1 [restartInDelay (frameEngine 4), idle, idle]
        (readyPlayer [entryAt 0 0, entryAt 1 5000, entryAt 2 5010, entryAt 3 5020, entryAt 4 5030] (Some 0)
           \<lparr>isPlaying := True\<rparr>)))
      = [StepCalled 1, StepReturned 1 True 1, PutImageData [0, 0, 0, 255] 1 1, Timeout 1 5000,
         StopRequested,
         StepCalled 2, StepReturned 2 True 2, PutImageData [0, 0, 0, 255] 1 1, Timeout 2 5010,
         StepCalled 1, StepReturned 1 True 3, PutImageData [0, 0, 0, 255] 1 1, Timeout 1 20,
         StepCalled 1, StepReturned 1 False 4, PutImageData [0, 0, 0, 255] 1 1]
   \<and> \<not> noStepAfterStop 1
        [StepCalled 1, StepReturned 1 True 1, PutImageData [0, 0, 0, 255] 1 1, Timeout 1 5000,
         StopRequested,
         StepCalled 2, StepReturned 2 True 2, PutImageData [0, 0, 0, 255] 1 1, Timeout 2 5010,
         StepCalled 1, StepReturned 1 True 3, PutImageData [0, 0, 0, 255] 1 1, Timeout 1 20,
         StepCalled 1, StepReturned 1 False 4, PutImageData [0, 0, 0, 255] 1 1]
   \<and> count_list
        [StepCalled 2, StepReturned 2 True 2, PutImageData [0, 0, 0, 255] 1 1, Timeout 2 5010,
         StepCalled 1, StepReturned 1 True 3, PutImageData [0, 0, 0, 255] 1 1, Timeout 1 20,
         StepCalled 1, StepReturned 1 False 4, PutImageData [0, 0, 0, 255] 1 1] (StepCalled 1) = 2"
  by (simp add: player_defs sample_defs)


text \<open>C9 (stop latency while nothing sets the flag again). The loop reads \<^verbatim>\<open>isPlaying\<close> at the
  top of each iteration only. In every run that returns and during whose waits nothing happens
  but stop requests, the loop reaches no step after a stop request, and ends with the flag
  cleared. When the flag is cleared while a step is pending and is not set again during the
  timer wait, the loop returns after this one iteration, whatever would happen later. When the
  flag is found cleared after an iteration, the loop returns there. The iteration during whose
  step stop is requested is not cut short: the result of the step is taken, the resolution and
  pointer updates are handled, the frame and the cursor are drawn, and the pacing delay is
  awaited.\<close>

theorem playLoop_stop_latency:
  "(playLoop v w k ticks p s = Some s'
      \<and> (\<forall>t \<in> set ticks. \<forall>x. (duringStep t x = x \<or> duringStep t x = stopReplay v x)
                               \<and> (duringDelay t x = x \<or> duringDelay t x = stopReplay v x))
      \<longrightarrow> noStepAfterStop k (eventsSince s s') \<and> \<not> isPlaying s')
   \<and> ((\<forall>x. \<not> isPlaying (duringStep t x)) \<and> (\<forall>x. \<not> isPlaying x \<longrightarrow> \<not> isPlaying (duringDelay t x))
      \<longrightarrow> playLoop v w k (t # ts) p s = playLoop v w k [t] p s
          \<and> (\<exists>s1. playLoop v w k [t] p s = Some s1 \<and> \<not> isPlaying s1))
   \<and> (isPlaying s \<and> \<not> isPlaying (outState (loopBody v w k t p s))
      \<longrightarrow> playLoop v w k (t # ts) p s = Some (outState (loopBody v w k t p s)))
   \<and> (isPlaying s \<and> replay s = Some r \<and> step w r = (Inr hasMore, r')
        \<and> duringStep t ((emit (StepCalled k) s)\<lparr>replay := Some r'\<rparr>)
             = stopReplay v ((emit (StepCalled k) s)\<lparr>replay := Some r'\<rparr>)
        \<and> (\<forall>x. duringDelay t x = x)
        \<and> ctx s
        \<and> r1 = (if resolutionChanged w r' then clearResolutionChanged w r' else r')
        \<and> r2 = (if pointerBitmapChanged w r1 then clearPointerBitmapChanged w r1 else r1)
        \<and> cursor = (if pointerBitmapChanged w r1
                     then (if getPointerBitmap w r1 = [] \<or> pointerWidth w r1 = 0 \<or> pointerHeight w r1 = 0
                           then None
                           else Some (pointerWidth w r1, pointerHeight w r1, getPointerBitmap w r1))
                     else cursorCanvas s)
        \<and> (pointerBitmapChanged w r1 \<and> getPointerBitmap w r1 \<noteq> [] \<and> pointerWidth w r1 \<noteq> 0
              \<and> pointerHeight w r1 \<noteq> 0
            \<longrightarrow> newImageData (getPointerBitmap w r1) (pointerWidth w r1) (pointerHeight w r1) = Inr ())
        \<and> newImageData (getFrameBuffer w r2) (width w r2) (height w r2) = Inr ()
      \<longrightarrow> (\<exists>s1. playLoop v w k (t # ts) p s = Some s1 \<and> \<not> isPlaying s1
            \<and> eventsSince s s1
                = [StepCalled k, StopRequested, StepReturned k hasMore (replay_currentFrame w r'),
                   PutImageData (getFrameBuffer w r2) (width w r2) (height w r2)]
                  @ (case cursor of None \<Rightarrow> []
                     | Some c \<Rightarrow> [DrawImage (mouseX w r2 - pointerHotspotX w r2)
                                     (mouseY w r2 - pointerHotspotY w r2)])
                  @ (if hasMore then map (Timeout k) (specPacing (timing' s) p [replay_currentFrame w r'])
                     else [])
            \<and> currentFrame s1 = replay_currentFrame w r'
            \<and> replay s1 = Some r2
            \<and> cursorCanvas s1 = cursor
            \<and> (resolutionChanged w r' \<longrightarrow> canvasWidth s1 = desktopWidth w r'
                  \<and> canvasHeight s1 = desktopHeight w r')))"
proof (intro conjI impI)
  assume a: "playLoop v w k ticks p s = Some s'
      \<and> (\<forall>t \<in> set ticks. \<forall>x. (duringStep t x = x \<or> duringStep t x = stopReplay v x)
                               \<and> (duringDelay t x = x \<or> duringDelay t x = stopReplay v x))"
  then have run: "playLoop v w k ticks p s = Some s'"
    and r1: "\<forall>t \<in> set ticks. \<forall>x. duringStep t x = x \<or> duringStep t x = stopReplay v x"
    and r2: "\<forall>t \<in> set ticks. \<forall>x. duringDelay t x = x \<or> duringDelay t x = stopReplay v x"
    by blast+
  from playLoop_noStepAfterStop [OF run r1 r2] obtain evs where
    evs: "trace s' = trace s @ evs" "noStepAfterStop k evs" "\<not> isPlaying s'" by blast
  from evs(1) have "eventsSince s s' = evs" by (rule eventsSince_append)
  with evs show "noStepAfterStop k (eventsSince s s')" and "\<not> isPlaying s'" by simp_all
next
  assume a: "(\<forall>x. \<not> isPlaying (duringStep t x)) \<and> (\<forall>x. \<not> isPlaying x \<longrightarrow> \<not> isPlaying (duringDelay t x))"
  then have s1: "\<forall>x. \<not> isPlaying (duringStep t x)"
    and s2: "\<forall>x. \<not> isPlaying x \<longrightarrow> \<not> isPlaying (duringDelay t x)" by blast+
  from playLoop_stopped_in_step [OF s1 s2, of v w k ts p s]
  show "playLoop v w k (t # ts) p s = playLoop v w k [t] p s"
    and "\<exists>s1. playLoop v w k [t] p s = Some s1 \<and> \<not> isPlaying s1" by blast+
next
  assume "isPlaying s \<and> \<not> isPlaying (outState (loopBody v w k t p s))"
  then show "playLoop v w k (t # ts) p s = Some (outState (loopBody v w k t p s))"
    by (cases "loopBody v w k t p s") simp_all
next
  assume a: "isPlaying s \<and> replay s = Some r \<and> step w r = (Inr hasMore, r')
        \<and> duringStep t ((emit (StepCalled k) s)\<lparr>replay := Some r'\<rparr>)
             = stopReplay v ((emit (StepCalled k) s)\<lparr>replay := Some r'\<rparr>)
        \<and> (\<forall>x. duringDelay t x = x)
        \<and> ctx s
        \<and> r1 = (if resolutionChanged w r' then clearResolutionChanged w r' else r')
        \<and> r2 = (if pointerBitmapChanged w r1 then clearPointerBitmapChanged w r1 else r1)
        \<and> cursor = (if pointerBitmapChanged w r1
                     then (if getPointerBitmap w r1 = [] \<or> pointerWidth w r1 = 0 \<or> pointerHeight w r1 = 0
                           then None
                           else Some (pointerWidth w r1, pointerHeight w r1, getPointerBitmap w r1))
                     else cursorCanvas s)
        \<and> (pointerBitmapChanged w r1 \<and> getPointerBitmap w r1 \<noteq> [] \<and> pointerWidth w r1 \<noteq> 0
              \<and> pointerHeight w r1 \<noteq> 0
            \<longrightarrow> newImageData (getPointerBitmap w r1) (pointerWidth w r1) (pointerHeight w r1) = Inr ())
        \<and> newImageData (getFrameBuffer w r2) (width w r2) (height w r2) = Inr ()"
  let ?s1 = "outState (loopBody v w k t p s)"
  from a have playing: "isPlaying s" by blast
  from a have h: "replay s = Some r" "step w r = (Inr hasMore, r')"
    "duringStep t ((emit (StepCalled k) s)\<lparr>replay := Some r'\<rparr>)
       = stopReplay v ((emit (StepCalled k) s)\<lparr>replay := Some r'\<rparr>)"
    "\<forall>x. duringDelay t x = x" "ctx s"
    "r1 = (if resolutionChanged w r' then clearResolutionChanged w r' else r')"
    "r2 = (if pointerBitmapChanged w r1 then clearPointerBitmapChanged w r1 else r1)"
    "cursor = (if pointerBitmapChanged w r1
                     then (if getPointerBitmap w r1 = [] \<or> pointerWidth w r1 = 0 \<or> pointerHeight w r1 = 0
                           then None
                           else Some (pointerWidth w r1, pointerHeight w r1, getPointerBitmap w r1))
                     else cursorCanvas s)"
    "pointerBitmapChanged w r1 \<and> getPointerBitmap w r1 \<noteq> [] \<and> pointerWidth w r1 \<noteq> 0
              \<and> pointerHeight w r1 \<noteq> 0
            \<longrightarrow> newImageData (getPointerBitmap w r1) (pointerWidth w r1) (pointerHeight w r1) = Inr ()"
    "newImageData (getFrameBuffer w r2) (width w r2) (height w r2) = Inr ()"
    by blast+
  note it = loopBody_stop_in_step [OF h, where p = p]
  from it(6) playing have ret: "playLoop v w k (t # ts) p s = Some ?s1"
    by (cases "loopBody v w k t p s") simp_all
  from it(1) have log: "eventsSince s ?s1
      = [StepCalled k, StopRequested, StepReturned k hasMore (replay_currentFrame w r'),
         PutImageData (getFrameBuffer w r2) (width w r2) (height w r2)]
        @ (case cursor of None \<Rightarrow> []
           | Some c \<Rightarrow> [DrawImage (mouseX w r2 - pointerHotspotX w r2)
                           (mouseY w r2 - pointerHotspotY w r2)])
        @ (if hasMore then map (Timeout k) (specPacing (timing' s) p [replay_currentFrame w r'])
           else [])"
    by (rule eventsSince_append)
  from ret it(6) log it(2,3,4,5)
  show "\<exists>s1. playLoop v w k (t # ts) p s = Some s1 \<and> \<not> isPlaying s1
            \<and> eventsSince s s1
                = [StepCalled k, StopRequested, StepReturned k hasMore (replay_currentFrame w r'),
                   PutImageData (getFrameBuffer w r2) (width w r2) (height w r2)]
                  @ (case cursor of None \<Rightarrow> []
                     | Some c \<Rightarrow> [DrawImage (mouseX w r2 - pointerHotspotX w r2)
                                     (mouseY w r2 - pointerHotspotY w r2)])
                  @ (if hasMore then map (Timeout k) (specPacing (timing' s) p [replay_currentFrame w r'])
                     else [])
            \<and> currentFrame s1 = replay_currentFrame w r'
            \<and> replay s1 = Some r2
            \<and> cursorCanvas s1 = cursor
            \<and> (resolutionChanged w r' \<longrightarrow> canvasWidth s1 = desktopWidth w r'
                  \<and> canvasHeight s1 = desktopHeight w r')"
    by (intro exI [of _ ?s1] conjI)
qed


theorem playLoop_stop_latency_witness:
  "(\<exists>s'. playLoop PlayerPage (frameEngine 3) 1 [idle, stopInStep PlayerPage, idle] 0
            (readyPlayer [entryAt 0 0, entryAt 1 100, entryAt 2 250] (Some 0)\<lparr>isPlaying := True\<rparr>) = Some s'
         \<and> noStepAfterStop 1 (trace s') \<and> count_list (trace s') (StepCalled 1) = 2 \<and> \<not> isPlaying s')
   \<and> playLoop PlayerPage (frameEngine 3) 1 [stopInStep PlayerPage, idle] 0
        (readyPlayer [entryAt 0 0, entryAt 1 100, entryAt 2 250] (Some 0)\<lparr>isPlaying := True\<rparr>)
      = playLoop PlayerPage (frameEngine 3) 1 [stopInStep PlayerPage] 0
        (readyPlayer [entryAt 0 0, entryAt 1 100, entryAt 2 250] (Some 0)\<lparr>isPlaying := True\<rparr>)
   \<and> (\<exists>s1. playLoop PlayerPage (frameEngine 3) 1 [stopInStep PlayerPage, idle] 0
            (readyPlayer [entryAt 0 0, entryAt 1 100, entryAt 2 250] (Some 0)\<lparr>isPlaying := True\<rparr>) = Some s1
         \<and> \<not> isPlaying s1
         \<and> trace s1 = [StepCalled 1, StopRequested, StepReturned 1 True 1, PutImageData [0, 0, 0, 255] 1 1,
                        Timeout 1 100]
         \<and> currentFrame s1 = 1 \<and> canvasWidth s1 = 800 \<and> canvasHeight s1 = 600)"
proof -
  let ?s = "readyPlayer [entryAt 0 0, entryAt 1 100, entryAt 2 250] (Some 0)\<lparr>isPlaying := True\<rparr>"
  let ?w = "frameEngine 3"
  let ?t = "stopInStep PlayerPage :: nat tick"
  obtain s' where run: "playLoop PlayerPage ?w 1 [idle, ?t, idle] 0 ?s = Some s'"
    and steps: "count_list (trace s') (StepCalled 1) = 2"
    by (simp add: player_defs sample_defs)
  have stops: "\<forall>t \<in> set [idle, ?t, idle]. \<forall>x.
      (duringStep t x = x \<or> duringStep t x = stopReplay PlayerPage x)
      \<and> (duringDelay t x = x \<or> duringDelay t x = stopReplay PlayerPage x)"
    by (simp add: idle_def stopInStep_def)
  have cleared: "\<forall>x :: nat player. \<not> isPlaying (duringStep ?t x)"
    and kept: "\<forall>x :: nat player. \<not> isPlaying x \<longrightarrow> \<not> isPlaying (duringDelay ?t x)"
    and still: "\<forall>x :: nat player. duringDelay ?t x = x"
    and pressed: "duringStep ?t ((emit (StepCalled 1) ?s)\<lparr>replay := Some 1\<rparr>)
        = stopReplay PlayerPage ((emit (StepCalled 1) ?s)\<lparr>replay := Some 1\<rparr>)"
    by (simp_all add: stopInStep_def)
  have fresh: "trace ?s = []" and playing: "isPlaying ?s" and canvas: "ctx ?s"
    and live: "replay ?s = Some 0" and stepped: "step ?w 0 = (Inr True, 1)"
    and r1: "(1::nat) = (if resolutionChanged ?w 1 then clearResolutionChanged ?w 1 else 1)"
    and r2: "(1::nat) = (if pointerBitmapChanged ?w 1 then clearPointerBitmapChanged ?w 1 else 1)"
    and cursor: "None = (if pointerBitmapChanged ?w 1
                     then (if getPointerBitmap ?w 1 = [] \<or> pointerWidth ?w 1 = 0 \<or> pointerHeight ?w 1 = 0
                           then None
                           else Some (pointerWidth ?w 1, pointerHeight ?w 1, getPointerBitmap ?w 1))
                     else cursorCanvas ?s)"
    and fits: "pointerBitmapChanged ?w 1 \<and> getPointerBitmap ?w 1 \<noteq> [] \<and> pointerWidth ?w 1 \<noteq> 0
              \<and> pointerHeight ?w 1 \<noteq> 0
            \<longrightarrow> newImageData (getPointerBitmap ?w 1) (pointerWidth ?w 1) (pointerHeight ?w 1) = Inr ()"
    and frame: "newImageData (getFrameBuffer ?w 1) (width ?w 1) (height ?w 1) = Inr ()"
    and changed: "resolutionChanged ?w 1"
    and vals: "replay_currentFrame ?w 1 = 1" "desktopWidth ?w 1 = 800" "desktopHeight ?w 1 = 600"
      "getFrameBuffer ?w 1 = [0, 0, 0, 255]" "width ?w 1 = 1" "height ?w 1 = 1"
    and pace: "specPacing (timing' ?s) 0 [1] = [100]"
    by (simp_all add: sample_defs newImageData_pixel)
  note inst = playLoop_stop_latency [where v = PlayerPage and w = ?w and k = 1
      and ticks = "[idle, ?t, idle]" and p = 0 and s = ?s and s' = s' and t = ?t and ts = "[idle]"
      and r = 0 and hasMore = True and r' = 1 and ?r1.0 = 1 and ?r2.0 = 1 and cursor = None]
  from inst run stops have "noStepAfterStop 1 (eventsSince ?s s') \<and> \<not> isPlaying s'" by blast
  with fresh have first: "noStepAfterStop 1 (trace s')" "\<not> isPlaying s'"
    by (simp_all add: eventsSince_def)
  from inst cleared kept
  have second: "playLoop PlayerPage ?w 1 [?t, idle] 0 ?s = playLoop PlayerPage ?w 1 [?t] 0 ?s" by blast
  from inst playing live stepped pressed still canvas r1 r2 cursor fits frame
  obtain s1 where s1: "playLoop PlayerPage ?w 1 [?t, idle] 0 ?s = Some s1" "\<not> isPlaying s1"
    "eventsSince ?s s1
       = [StepCalled 1, StopRequested, StepReturned 1 True (replay_currentFrame ?w 1),
          PutImageData (getFrameBuffer ?w 1) (width ?w 1) (height ?w 1)]
         @ (case None :: (nat \<times> nat \<times> bytes) option of None \<Rightarrow> []
            | Some c \<Rightarrow> [DrawImage (mouseX ?w 1 - pointerHotspotX ?w 1) (mouseY ?w 1 - pointerHotspotY ?w 1)])
         @ (if True then map (Timeout 1) (specPacing (timing' ?s) 0 [replay_currentFrame ?w 1]) else [])"
    "currentFrame s1 = replay_currentFrame ?w 1"
    "resolutionChanged ?w 1 \<longrightarrow> canvasWidth s1 = desktopWidth ?w 1 \<and> canvasHeight s1 = desktopHeight ?w 1"
    by blast
  have ev: "eventsSince ?s s1 = trace s1" using fresh by (simp add: eventsSince_def)
  from s1(3) have log: "trace s1 = [StepCalled 1, StopRequested, StepReturned 1 True 1,
      PutImageData [0, 0, 0, 255] 1 1, Timeout 1 100]"
    by (simp only: ev vals pace option.case if_True list.map append.simps)
  from s1(4) have frame1: "currentFrame s1 = 1" by (simp only: vals)
  from s1(5) changed have "canvasWidth s1 = desktopWidth ?w 1 \<and> canvasHeight s1 = desktopHeight ?w 1"
    by blast
  then have size: "canvasWidth s1 = 800" "canvasHeight s1 = 600" by (simp_all only: vals)
  from run first steps second s1(1,2) log frame1 size show ?thesis by blast
qed

section \<open>Starting playback\<close>

lemma onMount_page_empty:
  assumes "onMount_page w parse stored canvasCtx (s, db) = (s1, db1)" and "frames db = []"
  shows "replay s1 = replay s \<and> isInitialized s1 = isInitialized s \<and> ReplayLoaded s1 = ReplayLoaded s
     \<and> ((\<exists>c. fst (getFrameCount db) = Inr c) \<longrightarrow> trace s1 = trace s @ [Goto ''/''])
     \<and> ((\<exists>e. fst (getFrameCount db) = Inl e) \<longrightarrow> trace s1 = trace s)"
proof -
  obtain res db' where cnt: "getFrameCount db = (res, db')" by (cases "getFrameCount db")
  let ?s0 = "(case stored of None \<Rightarrow> s
             | Some timingData \<Rightarrow> (case parse timingData of None \<Rightarrow> s | Some t \<Rightarrow> s\<lparr>timing' := t\<rparr>))"
  have s0: "replay ?s0 = replay s" "isInitialized ?s0 = isInitialized s" "ReplayLoaded ?s0 = ReplayLoaded s"
    "trace ?s0 = trace s"
    by (simp_all split: option.splits)
  show ?thesis
  proof (cases res)
    case (Inl e)
    with assms(1) cnt have "s1 = ?s0" by (simp add: onMount_page_def Let_def)
    with s0 Inl cnt show ?thesis by simp
  next
    case (Inr c)
    with cnt assms(2) have "c = 0"
      by (auto simp: getFrameCount_def openDatabase_def nextFault_def
            split: if_splits list.splits option.splits)
    with Inr assms(1) cnt have "s1 = emit (Goto ''/'') ?s0" by (simp add: onMount_page_def Let_def)
    with s0 Inr cnt show ?thesis by (simp add: emit_def)
  qed
qed

text \<open>The component's \<^verbatim>\<open>startReplay\<close> does not look at the frame store: with the engine loaded and
  an empty store it calls \<^verbatim>\<open>Replay.create\<close>, keeps the handle, steps the engine and reports no
  error.\<close>

theorem startReplay_component_empty_store:
  "startReplay_component (frameEngine 0) \<lparr>frames = [], dbInstance = False, faults = []\<rparr> 1 [idle]
      (readyPlayer [] None) \<noteq> None
   \<and> trace (the (startReplay_component (frameEngine 0) \<lparr>frames = [], dbInstance = False, faults = []\<rparr>
        1 [idle] (readyPlayer [] None)))
       = [CreateCalled, StepCalled 1, StepReturned 1 False 1, PutImageData [0, 0, 0, 255] 1 1]
   \<and> replay (the (startReplay_component (frameEngine 0) \<lparr>frames = [], dbInstance = False, faults = []\<rparr>
        1 [idle] (readyPlayer [] None))) = Some 1
   \<and> error (the (startReplay_component (frameEngine 0) \<lparr>frames = [], dbInstance = False, faults = []\<rparr>
        1 [idle] (readyPlayer [] None))) = None"
  by (simp add: startReplay_component_def player_defs sample_defs)

text \<open>C3 (engine readiness, and the frame-count check of the page). Starting playback requires the
  engine to be initialised: when it is not, the component's start reports
  \<^verbatim>\<open>WASM not initialized\<close> and the page's start reports \<^verbatim>\<open>Player not ready\<close>, which it reports also
  when there is no session handle; in both cases nothing else changes, so no session is
  created. Mounting the player page on a store with zero frames creates no session and leaves
  the engine as it was; when the frame count can be read, all it logs is the navigation back to
  the upload page, and when the count request fails it logs nothing. A start attempted after
  such a mount, on a page that had no session handle, reports \<^verbatim>\<open>Player not ready\<close> and changes
  nothing else.\<close>

theorem start_requires_ready:
  "(\<not> isInitialized s \<or> \<not> ReplayLoaded s \<longrightarrow>
      startReplay_component w db k ticks s = Some (s\<lparr>error := Some ''WASM not initialized''\<rparr>))
   \<and> (\<not> isInitialized s \<or> \<not> ReplayLoaded s \<or> replay s = None \<longrightarrow>
      startReplay_page w k ticks s = Some (s\<lparr>error := Some ''Player not ready''\<rparr>))
   \<and> (frames db = [] \<and> onMount_page w parse stored canvasCtx (s, db) = (s1, db1) \<longrightarrow>
        replay s1 = replay s \<and> isInitialized s1 = isInitialized s \<and> ReplayLoaded s1 = ReplayLoaded s
        \<and> ((\<exists>c. fst (getFrameCount db) = Inr c) \<longrightarrow> trace s1 = trace s @ [Goto ''/''])
        \<and> ((\<exists>e. fst (getFrameCount db) = Inl e) \<longrightarrow> trace s1 = trace s)
        \<and> (replay s = None \<longrightarrow>
              startReplay_page w k ticks s1 = Some (s1\<lparr>error := Some ''Player not ready''\<rparr>)))"
proof -
  have c1: "\<not> isInitialized s \<or> \<not> ReplayLoaded s \<longrightarrow>
      startReplay_component w db k ticks s = Some (s\<lparr>error := Some ''WASM not initialized''\<rparr>)"
    by (auto simp: startReplay_component_def)
  have c2: "\<not> isInitialized s \<or> \<not> ReplayLoaded s \<or> replay s = None \<longrightarrow>
      startReplay_page w k ticks s = Some (s\<lparr>error := Some ''Player not ready''\<rparr>)"
    by (auto simp: startReplay_page_def)
  have c3: "frames db = [] \<and> onMount_page w parse stored canvasCtx (s, db) = (s1, db1) \<longrightarrow>
        replay s1 = replay s \<and> isInitialized s1 = isInitialized s \<and> ReplayLoaded s1 = ReplayLoaded s
        \<and> ((\<exists>c. fst (getFrameCount db) = Inr c) \<longrightarrow> trace s1 = trace s @ [Goto ''/''])
        \<and> ((\<exists>e. fst (getFrameCount db) = Inl e) \<longrightarrow> trace s1 = trace s)
        \<and> (replay s = None \<longrightarrow>
              startReplay_page w k ticks s1 = Some (s1\<lparr>error := Some ''Player not ready''\<rparr>))"
  proof
    assume a: "frames db = [] \<and> onMount_page w parse stored canvasCtx (s, db) = (s1, db1)"
    then have m: "onMount_page w parse stored canvasCtx (s, db) = (s1, db1)" and e: "frames db = []"
      by blast+
    note mount = onMount_page_empty [OF m e]
    have "replay s = None \<longrightarrow>
        startReplay_page w k ticks s1 = Some (s1\<lparr>error := Some ''Player not ready''\<rparr>)"
      using mount by (simp add: startReplay_page_def)
    with mount show "replay s1 = replay s \<and> isInitialized s1 = isInitialized s \<and> ReplayLoaded s1 = ReplayLoaded s
        \<and> ((\<exists>c. fst (getFrameCount db) = Inr c) \<longrightarrow> trace s1 = trace s @ [Goto ''/''])
        \<and> ((\<exists>e. fst (getFrameCount db) = Inl e) \<longrightarrow> trace s1 = trace s)
        \<and> (replay s = None \<longrightarrow>
              startReplay_page w k ticks s1 = Some (s1\<lparr>error := Some ''Player not ready''\<rparr>))"
      by blast
  qed
  from c1 c2 c3 show ?thesis by (intro conjI)
qed

theorem start_requires_ready_witness:
  "\<not> isInitialized (initialPlayer [] :: nat player)
   \<and> startReplay_component (frameEngine 3) \<lparr>frames = [], dbInstance = False, faults = []\<rparr> 1 [idle]
        (initialPlayer []) = Some ((initialPlayer [])\<lparr>error := Some ''WASM not initialized''\<rparr>)
   \<and> startReplay_page (frameEngine 3) 1 [idle] (initialPlayer [])
        = Some ((initialPlayer [])\<lparr>error := Some ''Player not ready''\<rparr>)
   \<and> frames \<lparr>frames = [], dbInstance = False, faults = []\<rparr> = []
   \<and> replay (initialPlayer [] :: nat player) = None
   \<and> fst (getFrameCount \<lparr>frames = [], dbInstance = False, faults = []\<rparr>) = Inr 0
   \<and> onMount_page (frameEngine 3) (\<lambda>text. None) None True
        (initialPlayer [], \<lparr>frames = [], dbInstance = False, faults = []\<rparr>)
      = (emit (Goto ''/'') (initialPlayer []), \<lparr>frames = [], dbInstance = True, faults = []\<rparr>)
   \<and> trace (emit (Goto ''/'') (initialPlayer [] :: nat player)) = [Goto ''/'']
   \<and> startReplay_page (frameEngine 3) 1 [idle] (emit (Goto ''/'') (initialPlayer []))
      = Some ((emit (Goto ''/'') (initialPlayer []))\<lparr>error := Some ''Player not ready''\<rparr>)
   \<and> fst (getFrameCount \<lparr>frames = [], dbInstance = False, faults = [Some ''blocked'']\<rparr>)
      = Inl (JsError ''Failed to open database: blocked'')
   \<and> trace (fst (onMount_page (frameEngine 3) (\<lambda>text. None) None True
        (initialPlayer [], \<lparr>frames = [], dbInstance = False, faults = [Some ''blocked'']\<rparr>))) = []"
proof -
  let ?db = "\<lparr>frames = [], dbInstance = False, faults = []\<rparr>"
  let ?db2 = "\<lparr>frames = [], dbInstance = False, faults = [Some ''blocked'']\<rparr>"
  let ?s = "initialPlayer [] :: nat player"
  let ?m2 = "onMount_page (frameEngine 3) (\<lambda>text. None) None True (?s, ?db2)"
  have cold: "\<not> isInitialized ?s" and none: "replay ?s = None" and empty: "frames ?db = []"
    and empty2: "frames ?db2 = []" and fresh: "trace ?s = []"
    by (simp_all add: initialPlayer_def)
  have mount: "onMount_page (frameEngine 3) (\<lambda>text. None) None True (?s, ?db)
      = (emit (Goto ''/'') ?s, \<lparr>frames = [], dbInstance = True, faults = []\<rparr>)"
    and cnt: "fst (getFrameCount ?db) = Inr 0"
    and cnt2: "fst (getFrameCount ?db2) = Inl (JsError ''Failed to open database: blocked'')"
    by (simp_all add: onMount_page_def getFrameCount_def openDatabase_def nextFault_def)
  have mount2: "?m2 = (fst ?m2, snd ?m2)" by simp
  note inst = start_requires_ready [of ?s "frameEngine 3" ?db 1 "[idle]" "\<lambda>text. None" None True
      "emit (Goto ''/'') ?s" "\<lparr>frames = [], dbInstance = True, faults = []\<rparr>"]
  note inst2 = start_requires_ready [of ?s "frameEngine 3" ?db2 1 "[idle]" "\<lambda>text. None" None True
      "fst ?m2" "snd ?m2"]
  from inst cold have comp: "startReplay_component (frameEngine 3) ?db 1 [idle] ?s
      = Some (?s\<lparr>error := Some ''WASM not initialized''\<rparr>)" by blast
  from inst cold have page: "startReplay_page (frameEngine 3) 1 [idle] ?s
      = Some (?s\<lparr>error := Some ''Player not ready''\<rparr>)" by blast
  from inst empty mount cnt have "trace (emit (Goto ''/'') ?s) = trace ?s @ [Goto ''/'']" by blast
  with fresh have nav: "trace (emit (Goto ''/'') ?s) = [Goto ''/'']" by simp
  from inst empty none mount
  have after: "startReplay_page (frameEngine 3) 1 [idle] (emit (Goto ''/'') ?s)
      = Some ((emit (Goto ''/'') ?s)\<lparr>error := Some ''Player not ready''\<rparr>)" by blast
  from inst2 empty2 mount2 cnt2 have "trace (fst ?m2) = trace ?s" by blast
  with fresh have quiet: "trace (fst ?m2) = []" by simp
  from cold comp page empty none cnt mount nav after cnt2 quiet show ?thesis by (intro conjI)
qed

end
